theory Spec2Isabelle
  imports Main "HOL-Library.AList"
begin

section \<open>The chain syncer of go-filecoin (package chain, DefaultSyncer)\<close>

text \<open>
  The development embeds \<^verbatim>\<open>DefaultSyncer\<close>: \<^verbatim>\<open>collectChain\<close>, \<^verbatim>\<open>tipSetState\<close>,
  \<^verbatim>\<open>syncOne\<close>, \<^verbatim>\<open>widen\<close> and \<^verbatim>\<open>HandleNewTipset\<close>. The syncer talks to its
  collaborators through interfaces (\<^verbatim>\<open>syncerChainReader\<close>, \<^verbatim>\<open>syncFetcher\<close>,
  \<^verbatim>\<open>consensus.Protocol\<close>, the state-tree engine). The consensus protocol, the fetcher
  and the state-tree engine are parameters of the model (a record of functions); the
  chain store, the bad-tipset cache and the tipset type are modelled from the
  specification, since the properties of the syncer speak about their contents. The log of
  a reorg (\<^verbatim>\<open>IsReorg\<close>) and the progress logs have no effect and are left out.
\<close>

subsection \<open>Data model\<close>

text \<open>A block identifier is an opaque content hash, compared and ordered by its bytes.\<close>

type_synonym cid = nat

text \<open>
  \<^verbatim>\<open>types.SortedCidSet\<close>: the sorted sequence of block identifiers. Its \<^verbatim>\<open>String()\<close>
  form, which the store and the cache use as key, is a deterministic injective function of
  the sequence and is identified with it.
\<close>

type_synonym SortedCidSet = "cid list"

text \<open>
  Modelled from the spec: \<^verbatim>\<open>types.Block\<close> (the package \<^verbatim>\<open>types\<close> is not among the
  sources), with what the syncer and the tipset methods read of a block: its identifier,
  the key of its parent tipset and its height (a \<^verbatim>\<open>uint64\<close>, only compared for equality).
\<close>

record Block =
  Cid :: cid
  BlockParents :: SortedCidSet
  BlockHeight :: nat

text \<open>
  Modelled from the spec: \<^verbatim>\<open>types.TipSet\<close> (the package \<^verbatim>\<open>types\<close> is not among the
  sources). The Go type is a map from the cid string to the block; it is represented by the
  list of its blocks in increasing cid order, so that \<^verbatim>\<open>len(ts)\<close> is the length of the
  list and \<^verbatim>\<open>ts.String()\<close> is the list of cids. A nil tipset is the empty list.
\<close>

type_synonym TipSet = "Block list"

record TipSetAndState =
  TipSet :: TipSet
  TipSetStateRoot :: cid

datatype error =
    ErrChainHasBadTipSet
  | ErrNewChainTooLong
  | ErrUnexpectedStoreState
  | ErrEmptyTipSet
  | ErrBadTipSetAdd
  | ErrNotFound
  | ErrExternal nat
  | PanicIndexOutOfRange

datatype SyncMode = Syncing | CaughtUp

definition FinalityLimit :: nat where
  "FinalityLimit = 600"

subsection \<open>Tipsets\<close>

text \<open>
  Modelled from the spec: the methods of \<^verbatim>\<open>types.TipSet\<close> that the syncer calls. A tipset
  is a set of blocks with the same parents and the same height, canonicalised as the sorted
  sequence of its blocks' identifiers; \<^verbatim>\<open>Parents\<close> and \<^verbatim>\<open>Height\<close> fail on the empty
  tipset, and \<^verbatim>\<open>AddBlock\<close> refuses a block whose parents or height differ from the
  tipset's.
\<close>

definition ToSortedCidSet :: "TipSet \<Rightarrow> SortedCidSet" where
  "ToSortedCidSet ts = map Cid ts"

definition String :: "TipSet \<Rightarrow> SortedCidSet" where
  "String ts = ToSortedCidSet ts"

definition Parents :: "TipSet \<Rightarrow> error + SortedCidSet" where
  "Parents ts = (case ts of [] \<Rightarrow> Inl ErrEmptyTipSet | b # _ \<Rightarrow> Inr (BlockParents b))"

definition Height :: "TipSet \<Rightarrow> error + nat" where
  "Height ts = (case ts of [] \<Rightarrow> Inl ErrEmptyTipSet | b # _ \<Rightarrow> Inr (BlockHeight b))"

definition Clone :: "TipSet \<Rightarrow> TipSet" where
  "Clone ts = ts"

text \<open>\<^verbatim>\<open>ts[id.String()] = b\<close> on the sorted representation: insert, or replace the block
  with the same cid.\<close>

fun put_block :: "Block \<Rightarrow> TipSet \<Rightarrow> TipSet" where
  "put_block b [] = [b]"
| "put_block b (x # xs) =
     (if Cid b < Cid x then b # x # xs
      else if Cid b = Cid x then b # xs
      else x # put_block b xs)"

definition AddBlock :: "TipSet \<Rightarrow> Block \<Rightarrow> error + TipSet" where
  "AddBlock ts b =
     (if length ts = 0 then Inr (put_block b ts)
      else if Height ts \<noteq> Inr (BlockHeight b) then Inl ErrBadTipSetAdd
      else if Parents ts \<noteq> Inr (BlockParents b) then Inl ErrBadTipSetAdd
      else Inr (put_block b ts))"

subsection \<open>The chain store\<close>

text \<open>
  Modelled from the spec: the chain store behind the interface \<^verbatim>\<open>syncerChainReader\<close>
  (its implementation is not among the sources). The store is the primary mapping from
  tipset key to tipset-and-state, kept as an association list in insertion order (the
  "index order" of the secondary index), the head pointer, and the set of locally
  resolvable block identifiers. The secondary index by (parents, height) is derived
  from the primary mapping. \<^verbatim>\<open>PutTipSetAndState\<close> inserts the tipset (its blocks become
  locally resolvable), the state root and the index entry; \<^verbatim>\<open>SetHead\<close> updates the head
  pointer. The spec names no failure for either, so both return no error here; their
  callers keep the error branch of the source.
\<close>

record ChainStore =
  tipIndex :: "(SortedCidSet \<times> TipSetAndState) list"
  head :: SortedCidSet
  blocks :: "cid set"

definition GetHead :: "ChainStore \<Rightarrow> SortedCidSet" where
  "GetHead store = head store"

definition GetTipSet :: "ChainStore \<Rightarrow> SortedCidSet \<Rightarrow> error + TipSet" where
  "GetTipSet store tsKey =
     (case map_of (tipIndex store) tsKey of
        None \<Rightarrow> Inl ErrNotFound
      | Some tsas \<Rightarrow> Inr (TipSet tsas))"

definition GetTipSetStateRoot :: "ChainStore \<Rightarrow> SortedCidSet \<Rightarrow> error + cid" where
  "GetTipSetStateRoot store tsKey =
     (case map_of (tipIndex store) tsKey of
        None \<Rightarrow> Inl ErrNotFound
      | Some tsas \<Rightarrow> Inr (TipSetStateRoot tsas))"

definition HasTipSetAndState :: "ChainStore \<Rightarrow> SortedCidSet \<Rightarrow> bool" where
  "HasTipSetAndState store tsKey = (map_of (tipIndex store) tsKey \<noteq> None)"

definition PutTipSetAndState :: "ChainStore \<Rightarrow> TipSetAndState \<Rightarrow> error + ChainStore" where
  "PutTipSetAndState store tsas =
     Inr (store\<lparr>tipIndex := AList.update (String (TipSet tsas)) tsas (tipIndex store),
                blocks := blocks store \<union> set (ToSortedCidSet (TipSet tsas))\<rparr>)"

definition SetHead :: "ChainStore \<Rightarrow> TipSet \<Rightarrow> error + ChainStore" where
  "SetHead store s = Inr (store\<lparr>head := ToSortedCidSet s\<rparr>)"

definition GetTipSetAndStatesByParentsAndHeight ::
    "ChainStore \<Rightarrow> SortedCidSet \<Rightarrow> nat \<Rightarrow> error + TipSetAndState list" where
  "GetTipSetAndStatesByParentsAndHeight store pTsKey h =
     Inr (filter (\<lambda>tsas. Parents (TipSet tsas) = Inr pTsKey \<and> Height (TipSet tsas) = Inr h)
            (map snd (tipIndex store)))"

definition HasTipSetAndStatesWithParentsAndHeight ::
    "ChainStore \<Rightarrow> SortedCidSet \<Rightarrow> nat \<Rightarrow> bool" where
  "HasTipSetAndStatesWithParentsAndHeight store pTsKey h =
     (filter (\<lambda>tsas. Parents (TipSet tsas) = Inr pTsKey \<and> Height (TipSet tsas) = Inr h)
        (map snd (tipIndex store)) \<noteq> [])"

definition HasAllBlocks :: "ChainStore \<Rightarrow> cid list \<Rightarrow> bool" where
  "HasAllBlocks store cs = (set cs \<subseteq> blocks store)"

subsection \<open>The bad-tipset cache\<close>

text \<open>
  Modelled from the spec: \<^verbatim>\<open>badTipSetCache\<close> (its methods are not among the sources): a
  set of tipset keys with \<^verbatim>\<open>Has\<close>, \<^verbatim>\<open>Add\<close> and \<^verbatim>\<open>AddChain\<close>, which adds each tipset's
  key.
\<close>

type_synonym badTipSetCache = "SortedCidSet set"

definition Has :: "badTipSetCache \<Rightarrow> SortedCidSet \<Rightarrow> bool" where
  "Has bad tsKey = (tsKey \<in> bad)"

definition Add :: "badTipSetCache \<Rightarrow> SortedCidSet \<Rightarrow> badTipSetCache" where
  "Add bad tsKey = insert tsKey bad"

fun AddChain :: "badTipSetCache \<Rightarrow> TipSet list \<Rightarrow> badTipSetCache" where
  "AddChain bad [] = bad"
| "AddChain bad (ts # chain) = AddChain (Add bad (String ts)) chain"

subsection \<open>The collaborators and the syncer\<close>

text \<open>
  The collaborators behind interfaces, as functions. A failure of a collaborator (a fetch
  timeout, an invalid tipset, a cancelled context) is an error value of its result.
  \<^verbatim>\<open>GetRecentAncestors\<close> and \<^verbatim>\<open>CollectTipSetsOfHeightAtLeast\<close> over \<^verbatim>\<open>IterAncestors\<close> are
  functions of this package that are not among the sources; they read the store and are
  taken as parameters, the constants \<^verbatim>\<open>AncestorRoundsNeeded\<close> and \<^verbatim>\<open>LookbackParameter\<close>
  being part of the first. A \<^verbatim>\<open>state.Tree\<close> is a value of the type parameter; the nil
  interface value is \<open>None\<close>.
\<close>

record 'st Collaborators =
  GetBlocks :: "cid list \<Rightarrow> error + Block list"
  NewValidTipSet :: "Block list \<Rightarrow> error + TipSet"
  RunStateTransition :: "TipSet \<Rightarrow> TipSet list \<Rightarrow> 'st \<Rightarrow> error + 'st"
  IsHeavier :: "TipSet \<Rightarrow> TipSet \<Rightarrow> 'st \<Rightarrow> 'st option \<Rightarrow> error + bool"
  LoadStateTree :: "cid \<Rightarrow> error + 'st"
  Flush :: "'st \<Rightarrow> error + cid"
  GetRecentAncestors :: "ChainStore \<Rightarrow> TipSet \<Rightarrow> nat \<Rightarrow> error + TipSet list"
  CollectTipSetsOfHeightAtLeast :: "ChainStore \<Rightarrow> TipSet \<Rightarrow> nat \<Rightarrow> error + TipSet list"

text \<open>
  The calls the syncer completes on the mutators of the store and the calls it makes to
  \<^verbatim>\<open>consensus.IsHeavier\<close>, in order. No function of the model reads this record; it is
  there to state which calls were made, with which arguments, and in which order.
\<close>

datatype 'st call =
    CallPutTipSetAndState TipSetAndState
  | CallSetHead TipSet
  | CallIsHeavier TipSet TipSet 'st "'st option"

record 'st DefaultSyncer =
  chainStore :: ChainStore
  badTipSets :: badTipSetCache
  SyncMode :: SyncMode
  calls :: "'st call list"

text \<open>
  \<^verbatim>\<open>getBlksMaybeFromNet\<close> puts the deadline \<^verbatim>\<open>blkWaitTime\<close> on the fetch; a fetch that
  runs into it is a fetch that returns an error.
\<close>

definition getBlksMaybeFromNet :: "'st Collaborators \<Rightarrow> cid list \<Rightarrow> error + Block list" where
  "getBlksMaybeFromNet env blkCids = GetBlocks env blkCids"

text \<open>
  The loop of \<^verbatim>\<open>collectChain\<close>: \<open>tipsetCids\<close> is the cursor and \<open>chain\<close> the tipsets
  collected so far, oldest first. Nothing bounds the walk in \<^verbatim>\<open>Syncing\<close> mode, so the
  result is optional: \<open>None\<close> is a walk that never returns. A returned pair is the Go result
  (the error, or the chain) and the syncer after the call.
\<close>

partial_function (option) collectChain_loop ::
    "'st Collaborators \<Rightarrow> 'st DefaultSyncer \<Rightarrow> SortedCidSet \<Rightarrow> TipSet list
       \<Rightarrow> ((error + TipSet list) \<times> 'st DefaultSyncer) option" where
  "collectChain_loop env syncer tipsetCids chain =
     (if SyncMode syncer = Syncing \<or> length chain < FinalityLimit then
        if HasTipSetAndState (chainStore syncer) tipsetCids then Some (Inr chain, syncer)
        else if Has (badTipSets syncer) tipsetCids then Some (Inl ErrChainHasBadTipSet, syncer)
        else
          (case getBlksMaybeFromNet env tipsetCids of
             Inl err \<Rightarrow> Some (Inl err, syncer)
           | Inr blks \<Rightarrow>
               (case NewValidTipSet env blks of
                  Inl err \<Rightarrow>
                    Some (Inl err,
                      syncer\<lparr>badTipSets := AddChain (Add (badTipSets syncer) tipsetCids) chain\<rparr>)
                | Inr ts \<Rightarrow>
                    (case Parents ts of
                       Inl err \<Rightarrow> Some (Inl err, syncer)
                     | Inr parents \<Rightarrow> collectChain_loop env syncer parents (ts # chain))))
      else Some (Inl ErrNewChainTooLong, syncer))"

declare collectChain_loop.simps [code]

definition collectChain ::
    "'st Collaborators \<Rightarrow> 'st DefaultSyncer \<Rightarrow> SortedCidSet
       \<Rightarrow> ((error + TipSet list) \<times> 'st DefaultSyncer) option" where
  "collectChain env syncer tipsetCids = collectChain_loop env syncer tipsetCids []"

definition tipSetState ::
    "'st Collaborators \<Rightarrow> 'st DefaultSyncer \<Rightarrow> SortedCidSet \<Rightarrow> error + 'st" where
  "tipSetState env syncer tsKey =
     (if \<not> HasTipSetAndState (chainStore syncer) tsKey then Inl ErrUnexpectedStoreState
      else
        (case GetTipSetStateRoot (chainStore syncer) tsKey of
           Inl err \<Rightarrow> Inl err
         | Inr stateCid \<Rightarrow> LoadStateTree env stateCid))"

text \<open>
  \<^verbatim>\<open>syncOne\<close> returns the Go error (\<open>None\<close> is nil) and the syncer after the call.
\<close>

definition syncOne ::
    "'st Collaborators \<Rightarrow> 'st DefaultSyncer \<Rightarrow> TipSet \<Rightarrow> TipSet
       \<Rightarrow> error option \<times> 'st DefaultSyncer" where
  "syncOne env syncer parent next =
     (let hd0 = GetHead (chainStore syncer) in
      if hd0 = ToSortedCidSet next then (None, syncer)
      else
      (case tipSetState env syncer (ToSortedCidSet parent) of
        Inl err \<Rightarrow> (Some err, syncer)
      | Inr st \<Rightarrow>
      (case Height next of
        Inl err \<Rightarrow> (Some err, syncer)
      | Inr h \<Rightarrow>
      (case GetRecentAncestors env (chainStore syncer) parent h of
        Inl err \<Rightarrow> (Some err, syncer)
      | Inr ancestors \<Rightarrow>
      (case RunStateTransition env next ancestors st of
        Inl err \<Rightarrow> (Some err, syncer)
      | Inr st' \<Rightarrow>
      (case Flush env st' of
        Inl err \<Rightarrow> (Some err, syncer)
      | Inr root \<Rightarrow>
      (case PutTipSetAndState (chainStore syncer) \<lparr>TipSet = next, TipSetStateRoot = root\<rparr> of
        Inl err \<Rightarrow> (Some err, syncer)
      | Inr store1 \<Rightarrow>
      (let syncer1 = syncer\<lparr>chainStore := store1,
            calls := calls syncer @
              [CallPutTipSetAndState \<lparr>TipSet = next, TipSetStateRoot = root\<rparr>]\<rparr> in
      (case tipSetState env syncer1 (ToSortedCidSet parent) of
        Inl err \<Rightarrow> (Some err, syncer1)
      | Inr nextParentSt \<Rightarrow>
      (case GetTipSet (chainStore syncer1) hd0 of
        Inl err \<Rightarrow> (Some err, syncer1)
      | Inr headTipSet \<Rightarrow>
      (case Parents headTipSet of
        Inl err \<Rightarrow> (Some err, syncer1)
      | Inr headParentCids \<Rightarrow>
      (case (if length headParentCids \<noteq> 0
             then (case tipSetState env syncer1 headParentCids of
                     Inl err \<Rightarrow> Inl err
                   | Inr t \<Rightarrow> Inr (Some t))
             else Inr None) of
        Inl err \<Rightarrow> (Some err, syncer1)
      | Inr headParentSt \<Rightarrow>
      (let syncer2 = syncer1\<lparr>calls := calls syncer1 @
            [CallIsHeavier next headTipSet nextParentSt headParentSt]\<rparr> in
      (case IsHeavier env next headTipSet nextParentSt headParentSt of
        Inl err \<Rightarrow> (Some err, syncer2)
      | Inr heavier \<Rightarrow>
      if heavier then
        (case CollectTipSetsOfHeightAtLeast env (chainStore syncer2) parent 0 of
           Inl err \<Rightarrow> (Some err, syncer2)
         | Inr newChain \<Rightarrow>
             (case SetHead (chainStore syncer2) next of
                Inl err \<Rightarrow> (Some err, syncer2)
              | Inr store3 \<Rightarrow>
                  (None, syncer2\<lparr>chainStore := store3,
                     calls := calls syncer2 @ [CallSetHead next]\<rparr>)))
      else (None, syncer2)))))))))))))))"

text \<open>The loop of \<^verbatim>\<open>widen\<close> that picks the candidate with the most blocks.\<close>

fun biggest :: "TipSetAndState \<Rightarrow> TipSetAndState list \<Rightarrow> TipSetAndState" where
  "biggest maxc [] = maxc"
| "biggest maxc (candidate # candidates) =
     (if length (TipSet candidate) > length (TipSet maxc)
      then biggest candidate candidates
      else biggest maxc candidates)"

text \<open>The loop of \<^verbatim>\<open>widen\<close> that adds the blocks of the biggest tipset to the copy.\<close>

fun AddBlocks :: "TipSet \<Rightarrow> Block list \<Rightarrow> error + TipSet" where
  "AddBlocks wts [] = Inr wts"
| "AddBlocks wts (blk # blks) =
     (case AddBlock wts blk of
        Inl err \<Rightarrow> Inl err
      | Inr wts' \<Rightarrow> AddBlocks wts' blks)"

text \<open>\<^verbatim>\<open>widen\<close> returns the error, or the optional widened tipset (\<open>None\<close> is nil).\<close>

definition widen :: "'st DefaultSyncer \<Rightarrow> TipSet \<Rightarrow> error + TipSet option" where
  "widen syncer ts =
     (case Parents ts of
        Inl err \<Rightarrow> Inl err
      | Inr parentSet \<Rightarrow>
      (case Height ts of
        Inl err \<Rightarrow> Inl err
      | Inr height \<Rightarrow>
      if \<not> HasTipSetAndStatesWithParentsAndHeight (chainStore syncer) parentSet height
      then Inr None
      else
      (case GetTipSetAndStatesByParentsAndHeight (chainStore syncer) parentSet height of
        Inl err \<Rightarrow> Inl err
      | Inr candidates \<Rightarrow>
      (case candidates of
         [] \<Rightarrow> Inr None
       | c0 # _ \<Rightarrow>
           (let maxc = biggest c0 candidates in
           (case AddBlocks (Clone ts) (TipSet maxc) of
              Inl err \<Rightarrow> Inl err
            | Inr wts \<Rightarrow>
                if String wts = String ts \<or> String wts = String (TipSet maxc)
                then Inr None
                else Inr (Some wts)))))))"

text \<open>
  The forward loop of \<^verbatim>\<open>HandleNewTipset\<close>: \<open>i\<close> is the loop index and \<open>rest\<close> is
  \<^verbatim>\<open>chain[i:]\<close>, whose first element is the loop variable \<^verbatim>\<open>ts\<close>.
\<close>

fun syncChain ::
    "'st Collaborators \<Rightarrow> 'st DefaultSyncer \<Rightarrow> TipSet \<Rightarrow> nat \<Rightarrow> TipSet list
       \<Rightarrow> error option \<times> 'st DefaultSyncer" where
  "syncChain env syncer parent i [] = (None, syncer)"
| "syncChain env syncer parent i (ts # rest) =
     (case (if i = 0 then
              (case widen syncer ts of
                 Inl err \<Rightarrow> (Some err, syncer)
               | Inr None \<Rightarrow> (None, syncer)
               | Inr (Some wts) \<Rightarrow> syncOne env syncer parent wts)
            else (None, syncer)) of
        (Some err, syncer1) \<Rightarrow> (Some err, syncer1)
      | (None, syncer1) \<Rightarrow>
          (case syncOne env syncer1 parent ts of
             (Some err, syncer2) \<Rightarrow>
               (Some err, syncer2\<lparr>badTipSets := AddChain (badTipSets syncer2) (ts # rest)\<rparr>)
           | (None, syncer2) \<Rightarrow> syncChain env syncer2 ts (Suc i) rest))"

text \<open>
  \<^verbatim>\<open>HandleNewTipset\<close>: \<open>None\<close> when the collection never returns; otherwise the Go error
  and the syncer after the call. \<^verbatim>\<open>chain[0]\<close> on an empty chain is a run-time panic.
\<close>

definition HandleNewTipset ::
    "'st Collaborators \<Rightarrow> 'st DefaultSyncer \<Rightarrow> SortedCidSet
       \<Rightarrow> (error option \<times> 'st DefaultSyncer) option" where
  "HandleNewTipset env syncer tipsetCids =
     (if HasAllBlocks (chainStore syncer) tipsetCids then Some (None, syncer)
      else
        (case collectChain env syncer tipsetCids of
           None \<Rightarrow> None
         | Some (Inl err, syncer1) \<Rightarrow> Some (Some err, syncer1)
         | Some (Inr chain, syncer1) \<Rightarrow>
             (case chain of
                [] \<Rightarrow> Some (Some PanicIndexOutOfRange, syncer1)
              | c0 # _ \<Rightarrow>
                  (case Parents c0 of
                     Inl err \<Rightarrow> Some (Some err, syncer1)
                   | Inr parentCids \<Rightarrow>
                       (case GetTipSet (chainStore syncer1) parentCids of
                          Inl err \<Rightarrow> Some (Some err, syncer1)
                        | Inr parentTs \<Rightarrow> Some (syncChain env syncer1 parentTs 0 chain))))))"

subsection \<open>Notions used in the statements\<close>

text \<open>
  \<open>reaches env syncer c0 chain0 c chain\<close>: the loop of \<^verbatim>\<open>collectChain\<close>, started with
  cursor \<open>c0\<close> and collected tipsets \<open>chain0\<close>, arrives at the loop head with cursor \<open>c\<close>
  and collected tipsets \<open>chain\<close>, after iterations that each passed the loop condition,
  the store lookup, the cache lookup, the fetch, \<^verbatim>\<open>NewValidTipSet\<close> and \<^verbatim>\<open>Parents\<close>.
\<close>

inductive reaches ::
    "'st Collaborators \<Rightarrow> 'st DefaultSyncer \<Rightarrow> SortedCidSet \<Rightarrow> TipSet list
       \<Rightarrow> SortedCidSet \<Rightarrow> TipSet list \<Rightarrow> bool"
  for env syncer c0 chain0 where
  start: "reaches env syncer c0 chain0 c0 chain0"
| iterate:
    "reaches env syncer c0 chain0 c chain \<Longrightarrow>
     SyncMode syncer = Syncing \<or> length chain < FinalityLimit \<Longrightarrow>
     \<not> HasTipSetAndState (chainStore syncer) c \<Longrightarrow>
     \<not> Has (badTipSets syncer) c \<Longrightarrow>
     getBlksMaybeFromNet env c = Inr blks \<Longrightarrow>
     NewValidTipSet env blks = Inr ts \<Longrightarrow>
     Parents ts = Inr parents \<Longrightarrow>
     reaches env syncer c0 chain0 parents (ts # chain)"

code_pred reaches .

text \<open>
  The three stretches of \<^verbatim>\<open>syncOne\<close> between its effects, named so that lemmas can speak
  about them: the syncer after the completed \<^verbatim>\<open>PutTipSetAndState\<close> of \<open>next\<close> with
  state root \<open>root\<close>; the computation of the new state root, from the first call of
  \<^verbatim>\<open>tipSetState\<close> to \<^verbatim>\<open>Flush\<close>; and the lookups after the store was written that
  produce the arguments of \<^verbatim>\<open>IsHeavier\<close>. Lemma \<open>syncOne_phases\<close> shows that \<open>syncOne\<close>
  is their composition.
\<close>

definition stored :: "'st DefaultSyncer \<Rightarrow> TipSet \<Rightarrow> cid \<Rightarrow> 'st DefaultSyncer" where
  "stored syncer next root =
     syncer\<lparr>chainStore := (chainStore syncer)
              \<lparr>tipIndex := AList.update (String next) \<lparr>TipSet = next, TipSetStateRoot = root\<rparr>
                             (tipIndex (chainStore syncer)),
               blocks := blocks (chainStore syncer) \<union> set (ToSortedCidSet next)\<rparr>,
            calls := calls syncer @ [CallPutTipSetAndState \<lparr>TipSet = next, TipSetStateRoot = root\<rparr>]\<rparr>"

definition newStateRoot ::
    "'st Collaborators \<Rightarrow> 'st DefaultSyncer \<Rightarrow> TipSet \<Rightarrow> TipSet \<Rightarrow> error + cid" where
  "newStateRoot env syncer parent next =
      (case tipSetState env syncer (ToSortedCidSet parent) of
        Inl err \<Rightarrow> Inl err
      | Inr st \<Rightarrow>
      (case Height next of
        Inl err \<Rightarrow> Inl err
      | Inr h \<Rightarrow>
      (case GetRecentAncestors env (chainStore syncer) parent h of
        Inl err \<Rightarrow> Inl err
      | Inr ancestors \<Rightarrow>
      (case RunStateTransition env next ancestors st of
        Inl err \<Rightarrow> Inl err
      | Inr st' \<Rightarrow> Flush env st'))))"

definition weighArgs ::
    "'st Collaborators \<Rightarrow> 'st DefaultSyncer \<Rightarrow> TipSet \<Rightarrow> SortedCidSet
       \<Rightarrow> error + (TipSet \<times> 'st \<times> 'st option)" where
  "weighArgs env syncer1 parent hd0 =
      (case tipSetState env syncer1 (ToSortedCidSet parent) of
        Inl err \<Rightarrow> Inl err
      | Inr nextParentSt \<Rightarrow>
      (case GetTipSet (chainStore syncer1) hd0 of
        Inl err \<Rightarrow> Inl err
      | Inr headTipSet \<Rightarrow>
      (case Parents headTipSet of
        Inl err \<Rightarrow> Inl err
      | Inr headParentCids \<Rightarrow>
      (case (if length headParentCids \<noteq> 0
             then (case tipSetState env syncer1 headParentCids of
                     Inl err \<Rightarrow> Inl err
                   | Inr t \<Rightarrow> Inr (Some t))
             else Inr None) of
        Inl err \<Rightarrow> Inl err
      | Inr headParentSt \<Rightarrow> Inr (headTipSet, nextParentSt, headParentSt)))))"

text \<open>The head pointer names a tipset of the store.\<close>

definition head_in_store :: "'st DefaultSyncer \<Rightarrow> bool" where
  "head_in_store syncer =
     HasTipSetAndState (chainStore syncer) (GetHead (chainStore syncer))"

text \<open>
  In a sequence of calls, every \<^verbatim>\<open>SetHead(ts)\<close> comes after a completed
  \<^verbatim>\<open>PutTipSetAndState\<close> of \<open>ts\<close>; \<open>persisted\<close> are the tipsets put so far.
\<close>

fun put_precedes_SetHead :: "TipSet list \<Rightarrow> 'st call list \<Rightarrow> bool" where
  "put_precedes_SetHead persisted [] = True"
| "put_precedes_SetHead persisted (CallPutTipSetAndState tsas # cs) =
     put_precedes_SetHead (TipSet tsas # persisted) cs"
| "put_precedes_SetHead persisted (CallSetHead ts # cs) =
     (ts \<in> set persisted \<and> put_precedes_SetHead persisted cs)"
| "put_precedes_SetHead persisted (CallIsHeavier a b ast bst # cs) =
     put_precedes_SetHead persisted cs"

text \<open>
  The store keeps every tipset under its own key, and the blocks of every stored tipset are
  locally resolvable.
\<close>

definition store_consistent :: "ChainStore \<Rightarrow> bool" where
  "store_consistent store =
     list_all (\<lambda>(k, tsas). k = String (TipSet tsas) \<and> set k \<subseteq> blocks store) (tipIndex store)"

text \<open>All blocks of a tipset have the parents and the height of its first block.\<close>

definition uniform :: "TipSet \<Rightarrow> bool" where
  "uniform ts =
     list_all (\<lambda>b. Inr (BlockParents b) = Parents ts \<and> Inr (BlockHeight b) = Height ts) ts"

text \<open>
  \<open>extends s s'\<close>: what every operation of the syncer guarantees between the syncer
  before and after it. The mode is unchanged; the cache and the store only grow; the head
  stays in the store and the store stays consistent if they were; and the calls made are
  appended to the record, every \<^verbatim>\<open>SetHead\<close> after the \<^verbatim>\<open>PutTipSetAndState\<close> of its
  tipset, every tipset put being in the store afterwards.
\<close>

definition newly_put :: "'st call list \<Rightarrow> TipSet list" where
  "newly_put cs = concat (map (\<lambda>c. case c of CallPutTipSetAndState tsas \<Rightarrow> [TipSet tsas] | _ \<Rightarrow> []) cs)"

definition extends :: "'st DefaultSyncer \<Rightarrow> 'st DefaultSyncer \<Rightarrow> bool" where
  "extends s s' =
     (SyncMode s' = SyncMode s
      \<and> badTipSets s \<subseteq> badTipSets s'
      \<and> (\<forall>k. HasTipSetAndState (chainStore s) k \<longrightarrow> HasTipSetAndState (chainStore s') k)
      \<and> blocks (chainStore s) \<subseteq> blocks (chainStore s')
      \<and> (head_in_store s \<longrightarrow> head_in_store s')
      \<and> (store_consistent (chainStore s) \<longrightarrow> store_consistent (chainStore s'))
      \<and> (\<exists>new. calls s' = calls s @ new \<and> put_precedes_SetHead [] new
             \<and> (\<forall>ts \<in> set (newly_put new). HasTipSetAndState (chainStore s') (String ts))))"

text \<open>
  \<open>covered s s'\<close>: the blocks known at \<open>s\<close> are known at \<open>s'\<close>; a key that the store
  holds at \<open>s'\<close> was held at \<open>s\<close> or has all its blocks at \<open>s'\<close>; the head at \<open>s'\<close> is
  the head at \<open>s\<close> or has all its blocks at \<open>s'\<close>; and the head stays in the store if it
  was there. This is what \<open>syncOne\<close> guarantees without any assumption on the store it
  starts from.
\<close>

definition covered :: "'st DefaultSyncer \<Rightarrow> 'st DefaultSyncer \<Rightarrow> bool" where
  "covered s s' =
     (blocks (chainStore s) \<subseteq> blocks (chainStore s')
      \<and> (\<forall>k. HasTipSetAndState (chainStore s') k \<longrightarrow>
              HasTipSetAndState (chainStore s) k \<or> set k \<subseteq> blocks (chainStore s'))
      \<and> (GetHead (chainStore s') = GetHead (chainStore s)
           \<or> set (GetHead (chainStore s')) \<subseteq> blocks (chainStore s'))
      \<and> (head_in_store s \<longrightarrow> head_in_store s'))"

subsection \<open>A small world for concrete runs\<close>

text \<open>
  A genesis block, two blocks \<open>b1\<close> and \<open>b2\<close> on it, a block \<open>b3\<close> on \<open>b2\<close>, a block
  \<open>b4\<close> on \<open>b2\<close> whose state transition fails, and a block \<open>b5\<close> on \<open>b3\<close> that forms no
  valid tipset, and a block \<open>b6\<close> on \<open>b5\<close>. State trees are numbers; a tipset is heavier when it is higher, or as high
  and larger.
\<close>

definition genesis :: Block where
  "genesis = \<lparr>Cid = 0, BlockParents = [], BlockHeight = 0\<rparr>"

definition b1 :: Block where
  "b1 = \<lparr>Cid = 1, BlockParents = [0], BlockHeight = 1\<rparr>"

definition b2 :: Block where
  "b2 = \<lparr>Cid = 2, BlockParents = [0], BlockHeight = 1\<rparr>"

definition b3 :: Block where
  "b3 = \<lparr>Cid = 3, BlockParents = [2], BlockHeight = 2\<rparr>"

definition b4 :: Block where
  "b4 = \<lparr>Cid = 4, BlockParents = [2], BlockHeight = 2\<rparr>"

definition b5 :: Block where
  "b5 = \<lparr>Cid = 5, BlockParents = [3], BlockHeight = 3\<rparr>"

definition b6 :: Block where
  "b6 = \<lparr>Cid = 6, BlockParents = [5], BlockHeight = 4\<rparr>"

definition demo_net :: "cid \<Rightarrow> Block option" where
  "demo_net c =
     (if c = 0 then Some genesis else if c = 1 then Some b1 else if c = 2 then Some b2
      else if c = 3 then Some b3 else if c = 4 then Some b4 else if c = 5 then Some b5
      else if c = 6 then Some b6 else None)"

fun demo_fetch :: "cid list \<Rightarrow> error + Block list" where
  "demo_fetch [] = Inr []"
| "demo_fetch (c # cs) =
     (case demo_net c of
        None \<Rightarrow> Inl (ErrExternal 1)
      | Some b \<Rightarrow> (case demo_fetch cs of Inl e \<Rightarrow> Inl e | Inr bs \<Rightarrow> Inr (b # bs)))"

definition demo_weight :: "TipSet \<Rightarrow> nat" where
  "demo_weight ts = (case ts of [] \<Rightarrow> 0 | b # _ \<Rightarrow> 10 * BlockHeight b + length ts)"

definition demo_env :: "nat Collaborators" where
  "demo_env =
     \<lparr>GetBlocks = demo_fetch,
      NewValidTipSet =
        (\<lambda>blks. if blks = [] \<or> list_ex (\<lambda>b. Cid b = 5) blks then Inl (ErrExternal 2)
                else Inr blks),
      RunStateTransition =
        (\<lambda>ts ancestors st. if list_ex (\<lambda>b. Cid b = 4) ts then Inl (ErrExternal 3)
                else Inr (st + length ts)),
      IsHeavier = (\<lambda>a b ast bst. Inr (demo_weight b < demo_weight a)),
      LoadStateTree = (\<lambda>c. Inr c),
      Flush = (\<lambda>st. Inr st),
      GetRecentAncestors = (\<lambda>store parent h. Inr []),
      CollectTipSetsOfHeightAtLeast = (\<lambda>store parent h. Inr [])\<rparr>"

text \<open>A syncer whose store holds the genesis tipset only, which is the head.\<close>

definition demo_syncer :: "nat DefaultSyncer" where
  "demo_syncer =
     \<lparr>chainStore =
        \<lparr>tipIndex = [([0], \<lparr>TipSet = [genesis], TipSetStateRoot = 0\<rparr>)],
         head = [0], blocks = {0}\<rparr>,
      badTipSets = {}, SyncMode = Syncing, calls = []\<rparr>"

text \<open>The same store after the tipset of \<open>b1\<close> was synced and became the head.\<close>

definition demo_syncer_b1 :: "nat DefaultSyncer" where
  "demo_syncer_b1 =
     \<lparr>chainStore =
        \<lparr>tipIndex = [([0], \<lparr>TipSet = [genesis], TipSetStateRoot = 0\<rparr>),
                     ([1], \<lparr>TipSet = [b1], TipSetStateRoot = 1\<rparr>)],
         head = [1], blocks = {1, 0}\<rparr>,
      badTipSets = {}, SyncMode = Syncing, calls = []\<rparr>"

text \<open>The store after \<open>b2\<close> and then \<open>b3\<close> were synced on the genesis tipset.\<close>

definition demo_syncer_b3 :: "nat DefaultSyncer" where
  "demo_syncer_b3 =
     \<lparr>chainStore =
        \<lparr>tipIndex = [([0], \<lparr>TipSet = [genesis], TipSetStateRoot = 0\<rparr>),
                     ([2], \<lparr>TipSet = [b2], TipSetStateRoot = 1\<rparr>),
                     ([3], \<lparr>TipSet = [b3], TipSetStateRoot = 2\<rparr>)],
         head = [3], blocks = {3, 2, 0}\<rparr>,
      badTipSets = {}, SyncMode = Syncing, calls = []\<rparr>"

text \<open>
  The same collaborators, except that \<^verbatim>\<open>IsHeavier\<close> reports an error for a tipset of two
  blocks; and the syncer that the first call of \<open>HandleNewTipset\<close> for the key of \<open>b3\<close>
  leaves behind when started from \<open>demo_syncer_b1\<close> with these collaborators.
\<close>

definition demo_env_weigh_fails :: "nat Collaborators" where
  "demo_env_weigh_fails =
     demo_env\<lparr>IsHeavier := (\<lambda>a b ast bst.
        if length a = 2 then Inl (ErrExternal 4) else IsHeavier demo_env a b ast bst)\<rparr>"

definition demo_after_failed_widen :: "nat DefaultSyncer" where
  "demo_after_failed_widen =
     \<lparr>chainStore =
        \<lparr>tipIndex = [([0], \<lparr>TipSet = [genesis], TipSetStateRoot = 0\<rparr>),
                     ([1], \<lparr>TipSet = [b1], TipSetStateRoot = 1\<rparr>),
                     ([1, 2], \<lparr>TipSet = [b1, b2], TipSetStateRoot = 2\<rparr>)],
         head = [1], blocks = {0, 1, 2}\<rparr>,
      badTipSets = {}, SyncMode = Syncing,
      calls = [CallPutTipSetAndState \<lparr>TipSet = [b1, b2], TipSetStateRoot = 2\<rparr>,
               CallIsHeavier [b1, b2] [b1] 0 (Some 0)]\<rparr>"

text \<open>
  The syncer that \<open>syncOne\<close> leaves behind when it syncs the tipset of \<open>b2\<close> on the
  genesis tipset while the tipset of \<open>b1\<close>, of the same weight, is the head.
\<close>

definition demo_syncer_b1_b2 :: "nat DefaultSyncer" where
  "demo_syncer_b1_b2 =
     \<lparr>chainStore =
        \<lparr>tipIndex = [([0], \<lparr>TipSet = [genesis], TipSetStateRoot = 0\<rparr>),
                     ([1], \<lparr>TipSet = [b1], TipSetStateRoot = 1\<rparr>),
                     ([2], \<lparr>TipSet = [b2], TipSetStateRoot = 1\<rparr>)],
         head = [1], blocks = {2, 1, 0}\<rparr>,
      badTipSets = {}, SyncMode = Syncing,
      calls = [CallPutTipSetAndState \<lparr>TipSet = [b2], TipSetStateRoot = 1\<rparr>,
               CallIsHeavier [b2] [b1] 0 (Some 0)]\<rparr>"

text \<open>
  The same collaborators, except that the collection of the tipsets of the new chain, which
  \<open>syncOne\<close> asks for after \<^verbatim>\<open>IsHeavier\<close> answered true, reports an error.
\<close>

definition demo_env_collect_fails :: "nat Collaborators" where
  "demo_env_collect_fails =
     demo_env\<lparr>CollectTipSetsOfHeightAtLeast := (\<lambda>store parent h. Inl (ErrExternal 5))\<rparr>"

text \<open>
  The same collaborators, except that \<^verbatim>\<open>IsHeavier\<close> answers true whenever it is given a
  state tree for the parents of the head, whichever tree it is, and reports an error when
  it is given the nil \<^verbatim>\<open>state.Tree\<close>.
\<close>

definition demo_env_needs_tree :: "nat Collaborators" where
  "demo_env_needs_tree =
     demo_env\<lparr>IsHeavier := (\<lambda>a b ast bst.
        case bst of None \<Rightarrow> Inl (ErrExternal 6) | Some t \<Rightarrow> Inr True)\<rparr>"

text \<open>
  A world whose chain never meets the store: the block with cid \<open>c\<close> has the parent
  \<open>c + 1\<close>, and every fetch and every grouping succeeds. \<open>long_chain j\<close> are the tipsets
  collected after \<open>j\<close> iterations of a walk that starts at the key \<open>[1]\<close>.
\<close>

definition long_block :: "cid \<Rightarrow> Block" where
  "long_block c = \<lparr>Cid = c, BlockParents = [Suc c], BlockHeight = 0\<rparr>"

definition long_env :: "nat Collaborators" where
  "long_env = demo_env\<lparr>GetBlocks := (\<lambda>cs. Inr (map long_block cs)), NewValidTipSet := Inr\<rparr>"

primrec long_chain :: "nat \<Rightarrow> TipSet list" where
  "long_chain 0 = []"
| "long_chain (Suc j) = [long_block (Suc j)] # long_chain j"

section \<open>Properties\<close>

subsection \<open>The bad-tipset cache\<close>

lemma AddChain_eq: "AddChain bad chain = bad \<union> set (map String chain)"
  by (induction chain arbitrary: bad) (auto simp: Add_def)

subsection \<open>The phases of syncOne\<close>

lemma syncOne_phases:
  "syncOne env s parent next =
     (if GetHead (chainStore s) = ToSortedCidSet next then (None, s)
      else
        (case newStateRoot env s parent next of
           Inl err \<Rightarrow> (Some err, s)
         | Inr root \<Rightarrow>
             (case weighArgs env (stored s next root) parent (GetHead (chainStore s)) of
                Inl err \<Rightarrow> (Some err, stored s next root)
              | Inr (headTipSet, nextParentSt, headParentSt) \<Rightarrow>
                  (case IsHeavier env next headTipSet nextParentSt headParentSt of
                     Inl err \<Rightarrow>
                       (Some err, (stored s next root)\<lparr>calls := calls (stored s next root) @
                          [CallIsHeavier next headTipSet nextParentSt headParentSt]\<rparr>)
                   | Inr heavier \<Rightarrow>
                       if heavier then
                         (case CollectTipSetsOfHeightAtLeast env
                                 (chainStore (stored s next root)) parent 0 of
                            Inl err \<Rightarrow>
                              (Some err, (stored s next root)\<lparr>calls := calls (stored s next root) @
                                 [CallIsHeavier next headTipSet nextParentSt headParentSt]\<rparr>)
                          | Inr newChain \<Rightarrow>
                              (None, (stored s next root)
                                 \<lparr>chainStore := (chainStore (stored s next root))
                                     \<lparr>head := ToSortedCidSet next\<rparr>,
                                  calls := calls (stored s next root) @
                                    [CallIsHeavier next headTipSet nextParentSt headParentSt,
                                     CallSetHead next]\<rparr>))
                       else
                         (None, (stored s next root)\<lparr>calls := calls (stored s next root) @
                            [CallIsHeavier next headTipSet nextParentSt headParentSt]\<rparr>)))))"
  unfolding syncOne_def newStateRoot_def weighArgs_def Let_def PutTipSetAndState_def
    SetHead_def stored_def
  by (simp split: sum.splits)

subsection \<open>The backward walk\<close>

text \<open>
  Induction over a walk that returns: one case for each exit of the loop, and one for an
  iteration that continues. The environment and the syncer do not change while the loop
  runs.
\<close>

lemma collectChain_loop_induct [consumes 1, case_names TooLong Known Bad Fetch Invalid NoParents Step]:
  assumes run: "collectChain_loop env syncer c chain = Some y"
    and TooLong: "\<And>c chain. \<not> (SyncMode syncer = Syncing \<or> length chain < FinalityLimit)
            \<Longrightarrow> P c chain (Inl ErrNewChainTooLong, syncer)"
    and Known: "\<And>c chain. SyncMode syncer = Syncing \<or> length chain < FinalityLimit
            \<Longrightarrow> HasTipSetAndState (chainStore syncer) c \<Longrightarrow> P c chain (Inr chain, syncer)"
    and Bad: "\<And>c chain. SyncMode syncer = Syncing \<or> length chain < FinalityLimit
            \<Longrightarrow> \<not> HasTipSetAndState (chainStore syncer) c \<Longrightarrow> Has (badTipSets syncer) c
            \<Longrightarrow> P c chain (Inl ErrChainHasBadTipSet, syncer)"
    and Fetch: "\<And>c chain err. SyncMode syncer = Syncing \<or> length chain < FinalityLimit
            \<Longrightarrow> \<not> HasTipSetAndState (chainStore syncer) c \<Longrightarrow> \<not> Has (badTipSets syncer) c
            \<Longrightarrow> getBlksMaybeFromNet env c = Inl err \<Longrightarrow> P c chain (Inl err, syncer)"
    and Invalid: "\<And>c chain blks err. SyncMode syncer = Syncing \<or> length chain < FinalityLimit
            \<Longrightarrow> \<not> HasTipSetAndState (chainStore syncer) c \<Longrightarrow> \<not> Has (badTipSets syncer) c
            \<Longrightarrow> getBlksMaybeFromNet env c = Inr blks \<Longrightarrow> NewValidTipSet env blks = Inl err
            \<Longrightarrow> P c chain (Inl err,
                  syncer\<lparr>badTipSets := AddChain (Add (badTipSets syncer) c) chain\<rparr>)"
    and NoParents: "\<And>c chain blks ts err. SyncMode syncer = Syncing \<or> length chain < FinalityLimit
            \<Longrightarrow> \<not> HasTipSetAndState (chainStore syncer) c \<Longrightarrow> \<not> Has (badTipSets syncer) c
            \<Longrightarrow> getBlksMaybeFromNet env c = Inr blks \<Longrightarrow> NewValidTipSet env blks = Inr ts
            \<Longrightarrow> Parents ts = Inl err \<Longrightarrow> P c chain (Inl err, syncer)"
    and Step: "\<And>c chain blks ts parents y. SyncMode syncer = Syncing \<or> length chain < FinalityLimit
            \<Longrightarrow> \<not> HasTipSetAndState (chainStore syncer) c \<Longrightarrow> \<not> Has (badTipSets syncer) c
            \<Longrightarrow> getBlksMaybeFromNet env c = Inr blks \<Longrightarrow> NewValidTipSet env blks = Inr ts
            \<Longrightarrow> Parents ts = Inr parents
            \<Longrightarrow> collectChain_loop env syncer parents (ts # chain) = Some y
            \<Longrightarrow> P parents (ts # chain) y \<Longrightarrow> P c chain y"
  shows "P c chain y"
proof -
  have "env = env \<longrightarrow> syncer = syncer \<longrightarrow> collectChain_loop env syncer c chain = Some y \<longrightarrow> P c chain y"
  proof (rule collectChain_loop.raw_induct
      [where P = "\<lambda>e s c ch y. e = env \<longrightarrow> s = syncer \<longrightarrow>
          collectChain_loop e s c ch = Some y \<longrightarrow> P c ch y", OF _ run])
    fix f :: "'a Collaborators \<Rightarrow> 'a DefaultSyncer \<Rightarrow> SortedCidSet \<Rightarrow> TipSet list
       \<Rightarrow> ((error + TipSet list) \<times> 'a DefaultSyncer) option"
    fix e s c ch y
    assume IH: "\<And>e s c ch y. f e s c ch = Some y \<Longrightarrow> e = env \<longrightarrow> s = syncer \<longrightarrow>
          collectChain_loop e s c ch = Some y \<longrightarrow> P c ch y"
    assume body: "(if SyncMode s = Syncing \<or> length ch < FinalityLimit then
        if HasTipSetAndState (chainStore s) c then Some (Inr ch, s)
        else if Has (badTipSets s) c then Some (Inl ErrChainHasBadTipSet, s)
        else
          (case getBlksMaybeFromNet e c of
             Inl err \<Rightarrow> Some (Inl err, s)
           | Inr blks \<Rightarrow>
               (case NewValidTipSet e blks of
                  Inl err \<Rightarrow>
                    Some (Inl err,
                      s\<lparr>badTipSets := AddChain (Add (badTipSets s) c) ch\<rparr>)
                | Inr ts \<Rightarrow>
                    (case Parents ts of
                       Inl err \<Rightarrow> Some (Inl err, s)
                     | Inr parents \<Rightarrow> f e s parents (ts # ch))))
      else Some (Inl ErrNewChainTooLong, s)) = Some y"
    show "e = env \<longrightarrow> s = syncer \<longrightarrow> collectChain_loop e s c ch = Some y \<longrightarrow> P c ch y"
    proof (intro impI)
      assume eq: "e = env" "s = syncer" and real: "collectChain_loop e s c ch = Some y"
      have real': "(if SyncMode s = Syncing \<or> length ch < FinalityLimit then
        if HasTipSetAndState (chainStore s) c then Some (Inr ch, s)
        else if Has (badTipSets s) c then Some (Inl ErrChainHasBadTipSet, s)
        else
          (case getBlksMaybeFromNet e c of
             Inl err \<Rightarrow> Some (Inl err, s)
           | Inr blks \<Rightarrow>
               (case NewValidTipSet e blks of
                  Inl err \<Rightarrow>
                    Some (Inl err,
                      s\<lparr>badTipSets := AddChain (Add (badTipSets s) c) ch\<rparr>)
                | Inr ts \<Rightarrow>
                    (case Parents ts of
                       Inl err \<Rightarrow> Some (Inl err, s)
                     | Inr parents \<Rightarrow> collectChain_loop e s parents (ts # ch))))
      else Some (Inl ErrNewChainTooLong, s)) = Some y"
        using real by (subst (asm) collectChain_loop.simps)
      show "P c ch y"
        using body real' IH eq TooLong Known Bad Fetch Invalid NoParents Step
        by (auto split: if_splits sum.splits)
    qed
  qed
  then show ?thesis using run by simp
qed

lemma collectChain_loop_frame:
  assumes "collectChain_loop env syncer c chain = Some y"
  shows "chainStore (snd y) = chainStore syncer \<and> calls (snd y) = calls syncer
     \<and> SyncMode (snd y) = SyncMode syncer"
  using assms by (induction rule: collectChain_loop_induct) auto

lemma collectChain_loop_ok_state:
  assumes "collectChain_loop env syncer c chain = Some y"
  shows "fst y = Inr res \<Longrightarrow> snd y = syncer"
  using assms by (induction rule: collectChain_loop_induct) auto

lemma collectChain_loop_ok_suffix:
  assumes "collectChain_loop env syncer c chain = Some y"
  shows "fst y = Inr res \<Longrightarrow>
    \<exists>pre. res = pre @ chain \<and> (pre = [] \<longrightarrow> HasTipSetAndState (chainStore syncer) c)"
  using assms
proof (induction rule: collectChain_loop_induct)
  case (Step c chain blks ts parents y)
  then obtain pre where "res = pre @ ts # chain" by auto
  then have "res = (pre @ [ts]) @ chain \<and> pre @ [ts] \<noteq> []" by simp
  then show ?case by blast
qed auto

lemma collectChain_loop_ok_length:
  assumes "collectChain_loop env syncer c chain = Some y"
  shows "fst y = Inr res \<Longrightarrow> SyncMode syncer = CaughtUp \<Longrightarrow> length res < FinalityLimit"
  using assms by (induction rule: collectChain_loop_induct) auto

lemma collectChain_loop_bad_mono:
  assumes "collectChain_loop env syncer c chain = Some y"
  shows "badTipSets syncer \<subseteq> badTipSets (snd y)"
  using assms
  by (induction rule: collectChain_loop_induct) (auto simp: AddChain_eq Add_def)

lemma collectChain_loop_returns_when_CaughtUp:
  assumes "SyncMode s = CaughtUp"
  shows "\<exists>y. collectChain_loop env s c chain = Some y"
proof (induction "FinalityLimit - length chain" arbitrary: c chain)
  case 0
  then have "\<not> (SyncMode s = Syncing \<or> length chain < FinalityLimit)"
    using assms by simp
  then show ?case by (subst collectChain_loop.simps) simp
next
  case (Suc n)
  then have lt: "length chain < FinalityLimit" by simp
  have step: "\<And>ts parents. \<exists>y. collectChain_loop env s parents (ts # chain) = Some y"
    using Suc.hyps(2) by (intro Suc.hyps(1)) simp
  show ?case
  proof (cases "getBlksMaybeFromNet env c")
    case (Inl err)
    then show ?thesis by (subst collectChain_loop.simps) simp
  next
    case blks: (Inr blks)
    show ?thesis
    proof (cases "NewValidTipSet env blks")
      case (Inl err)
      then show ?thesis using blks by (subst collectChain_loop.simps) simp
    next
      case ts: (Inr ts)
      show ?thesis
      proof (cases "Parents ts")
        case (Inl err)
        then show ?thesis using blks ts by (subst collectChain_loop.simps) simp
      next
        case (Inr parents)
        from step [of parents ts] obtain y where
          "collectChain_loop env s parents (ts # chain) = Some y" by blast
        then show ?thesis using blks ts Inr lt by (subst collectChain_loop.simps) simp
      qed
    qed
  qed
qed

lemma reaches_same_result:
  assumes "reaches env s c0 chain0 c chain"
  shows "collectChain_loop env s c0 chain0 = collectChain_loop env s c chain"
  using assms
proof (induction rule: reaches.induct)
  case start
  show ?case by simp
next
  case (iterate c chain blks ts parents)
  have "collectChain_loop env s c chain = collectChain_loop env s parents (ts # chain)"
    using iterate.hyps by (subst collectChain_loop.simps) simp
  with iterate.IH show ?case by simp
qed

lemma reaches_added:
  assumes "reaches env s c0 chain0 c chain"
  shows "chain = chain0 \<or>
     (\<exists>ts chain'. chain = ts # chain' \<and> (SyncMode s = Syncing \<or> length chain' < FinalityLimit))"
  using assms by (cases rule: reaches.cases) auto


subsection \<open>Evaluation of concrete runs\<close>

lemmas model_defs =
  syncOne_def tipSetState_def widen_def HandleNewTipset_def collectChain_def
  getBlksMaybeFromNet_def Let_def
  GetHead_def GetTipSet_def GetTipSetStateRoot_def HasTipSetAndState_def PutTipSetAndState_def
  SetHead_def GetTipSetAndStatesByParentsAndHeight_def HasTipSetAndStatesWithParentsAndHeight_def
  HasAllBlocks_def Has_def Add_def
  ToSortedCidSet_def String_def Parents_def Height_def Clone_def AddBlock_def FinalityLimit_def

lemmas demo_defs =
  genesis_def b1_def b2_def b3_def b4_def b5_def b6_def demo_net_def demo_weight_def demo_env_def
  demo_syncer_def demo_syncer_b1_def demo_syncer_b3_def

lemma demo_syncOne_b1:
  "syncOne demo_env demo_syncer [genesis] [b1] =
     (None, demo_syncer_b1\<lparr>calls :=
        [CallPutTipSetAndState \<lparr>TipSet = [b1], TipSetStateRoot = 1\<rparr>,
         CallIsHeavier [b1] [genesis] 0 None, CallSetHead [b1]]\<rparr>)"
  by (simp add: model_defs demo_defs)

lemma demo_run_3:
  "\<exists>s'. HandleNewTipset demo_env demo_syncer [3] = Some (None, s')"
  by (simp add: model_defs demo_defs collectChain_loop.simps)

lemma long_reaches:
  "j \<le> FinalityLimit \<Longrightarrow>
     reaches long_env (demo_syncer\<lparr>SyncMode := CaughtUp\<rparr>) [1] [] [Suc j] (long_chain j)"
proof (induction j)
  case 0
  show ?case by (simp add: reaches.start)
next
  case (Suc j)
  then have r: "reaches long_env (demo_syncer\<lparr>SyncMode := CaughtUp\<rparr>) [1] [] [Suc j] (long_chain j)"
    by simp
  have len: "length (long_chain j) = j" by (induction j) simp_all
  show ?case
    unfolding long_chain.simps
    by (rule reaches.iterate [OF r, where blks = "[long_block (Suc j)]"])
       (use Suc.prems len in \<open>simp_all add: long_env_def demo_env_def demo_syncer_def
          model_defs long_block_def\<close>)
qed

lemma length_long_chain: "length (long_chain j) = j"
  by (induction j) simp_all

lemma demo_reaches_5:
  "reaches demo_env demo_syncer [6] [] [5] [[b6]]"
  by (rule reaches.iterate [OF reaches.start, where blks = "[b6]"])
     (simp_all add: model_defs demo_defs)

subsection \<open>What a call of syncOne can change\<close>

lemma stored_simps:
  "badTipSets (stored s next root) = badTipSets s"
  "SyncMode (stored s next root) = SyncMode s"
  "GetHead (chainStore (stored s next root)) = GetHead (chainStore s)"
  "calls (stored s next root) = calls s @ [CallPutTipSetAndState \<lparr>TipSet = next, TipSetStateRoot = root\<rparr>]"
  "blocks (chainStore (stored s next root)) = blocks (chainStore s) \<union> set (ToSortedCidSet next)"
  by (simp_all add: stored_def GetHead_def)

lemma stored_Has:
  "HasTipSetAndState (chainStore (stored s next root)) k
     = (k = String next \<or> HasTipSetAndState (chainStore s) k)"
  by (auto simp: stored_def HasTipSetAndState_def update_conv')

lemma stored_GetTipSet:
  "GetTipSet (chainStore (stored s next root)) k
     = (if k = String next then Inr next else GetTipSet (chainStore s) k)"
  by (auto simp: stored_def GetTipSet_def update_conv')

lemma stored_GetTipSetStateRoot:
  "GetTipSetStateRoot (chainStore (stored s next root)) k
     = (if k = String next then Inr root else GetTipSetStateRoot (chainStore s) k)"
  by (auto simp: stored_def GetTipSetStateRoot_def update_conv')


lemma head_update_simps:
  "HasTipSetAndState (store\<lparr>head := h\<rparr>) k = HasTipSetAndState store k"
  "GetHead (store\<lparr>head := h\<rparr>) = h"
  "GetTipSet (store\<lparr>head := h\<rparr>) k = GetTipSet store k"
  "GetTipSetStateRoot (store\<lparr>head := h\<rparr>) k = GetTipSetStateRoot store k"
  by (simp_all add: HasTipSetAndState_def GetHead_def GetTipSet_def GetTipSetStateRoot_def)

lemmas stored_all = stored_simps stored_Has stored_GetTipSet stored_GetTipSetStateRoot
  head_update_simps

lemma syncOne_frame:
  assumes "syncOne env s parent next = (r, s')"
  shows "badTipSets s' = badTipSets s \<and> SyncMode s' = SyncMode s"
  using assms unfolding syncOne_phases
  by (auto simp: stored_simps split: if_splits sum.splits prod.splits)

lemma syncOne_store_mono:
  assumes "syncOne env s parent next = (r, s')"
  shows "(HasTipSetAndState (chainStore s) k \<longrightarrow> HasTipSetAndState (chainStore s') k)
       \<and> blocks (chainStore s) \<subseteq> blocks (chainStore s')"
  using assms unfolding syncOne_phases
  by (auto simp: stored_all split: if_splits sum.splits prod.splits)

lemma syncOne_head:
  assumes "syncOne env s parent next = (r, s')"
  shows "GetHead (chainStore s') = GetHead (chainStore s)
       \<or> (GetHead (chainStore s') = ToSortedCidSet next
            \<and> HasTipSetAndState (chainStore s') (String next))"
  using assms unfolding syncOne_phases
  by (auto simp: stored_all String_def split: if_splits sum.splits prod.splits)

lemma syncOne_calls:
  assumes "syncOne env s parent next = (r, s')"
  shows "s' = s
       \<or> (\<exists>root. HasTipSetAndState (chainStore s') (String next) \<and>
             (calls s' = calls s @ [CallPutTipSetAndState \<lparr>TipSet = next, TipSetStateRoot = root\<rparr>]
           \<or> (\<exists>b ast bst.
                 calls s' = calls s @ [CallPutTipSetAndState \<lparr>TipSet = next, TipSetStateRoot = root\<rparr>,
                                       CallIsHeavier next b ast bst]
               \<or> calls s' = calls s @ [CallPutTipSetAndState \<lparr>TipSet = next, TipSetStateRoot = root\<rparr>,
                                       CallIsHeavier next b ast bst, CallSetHead next])))"
  using assms unfolding syncOne_phases
  by (auto simp: stored_all split: if_splits sum.splits prod.splits)


lemma weighArgs_head:
  assumes "weighArgs env s1 parent hd0 = Inr (headTipSet, nextParentSt, headParentSt)"
  shows "GetTipSet (chainStore s1) hd0 = Inr headTipSet
       \<and> tipSetState env s1 (ToSortedCidSet parent) = Inr nextParentSt
       \<and> (Parents headTipSet = Inr [] \<longrightarrow> headParentSt = None)
       \<and> (\<forall>cids. Parents headTipSet = Inr cids \<and> cids \<noteq> [] \<longrightarrow>
             (\<exists>t. headParentSt = Some t \<and> tipSetState env s1 cids = Inr t))"
  using assms unfolding weighArgs_def
  by (auto split: sum.splits if_splits)

subsection \<open>Every operation extends the syncer\<close>

lemma newly_put_simps [simp]:
  "newly_put [] = []"
  "newly_put (CallPutTipSetAndState tsas # cs) = TipSet tsas # newly_put cs"
  "newly_put (CallSetHead ts # cs) = newly_put cs"
  "newly_put (CallIsHeavier a b ast bst # cs) = newly_put cs"
  "newly_put (xs @ ys) = newly_put xs @ newly_put ys"
  by (simp_all add: newly_put_def)

lemma put_precedes_mono:
  "put_precedes_SetHead P cs \<Longrightarrow> set P \<subseteq> set Q \<Longrightarrow> put_precedes_SetHead Q cs"
proof (induction cs arbitrary: P Q)
  case Nil
  then show ?case by simp
next
  case (Cons c cs)
  show ?case
  proof (cases c)
    case (CallPutTipSetAndState tsas)
    then have "put_precedes_SetHead (TipSet tsas # P) cs" using Cons.prems by simp
    moreover have "set (TipSet tsas # P) \<subseteq> set (TipSet tsas # Q)" using Cons.prems by auto
    ultimately have "put_precedes_SetHead (TipSet tsas # Q) cs" by (rule Cons.IH)
    then show ?thesis using CallPutTipSetAndState by simp
  next
    case (CallSetHead ts)
    then show ?thesis using Cons.prems Cons.IH [of P Q] by auto
  next
    case (CallIsHeavier a b ast bst)
    then show ?thesis using Cons.prems Cons.IH [of P Q] by auto
  qed
qed

lemma put_precedes_append:
  "put_precedes_SetHead P xs \<Longrightarrow> put_precedes_SetHead [] ys \<Longrightarrow> put_precedes_SetHead P (xs @ ys)"
  by (induction P xs rule: put_precedes_SetHead.induct) (auto intro: put_precedes_mono)

lemma extends_refl: "extends s s"
  by (simp add: extends_def)

lemma extends_trans:
  assumes "extends s s1" "extends s1 s2"
  shows "extends s s2"
proof -
  from assms(1) obtain new1 where n1: "calls s1 = calls s @ new1" "put_precedes_SetHead [] new1"
    "\<forall>ts \<in> set (newly_put new1). HasTipSetAndState (chainStore s1) (String ts)"
    by (auto simp: extends_def)
  from assms(2) obtain new2 where n2: "calls s2 = calls s1 @ new2" "put_precedes_SetHead [] new2"
    "\<forall>ts \<in> set (newly_put new2). HasTipSetAndState (chainStore s2) (String ts)"
    by (auto simp: extends_def)
  have mono: "\<forall>k. HasTipSetAndState (chainStore s1) k \<longrightarrow> HasTipSetAndState (chainStore s2) k"
    using assms(2) by (simp add: extends_def)
  have "calls s2 = calls s @ (new1 @ new2) \<and> put_precedes_SetHead [] (new1 @ new2)
      \<and> (\<forall>ts \<in> set (newly_put (new1 @ new2)). HasTipSetAndState (chainStore s2) (String ts))"
    using n1 n2 mono by (auto intro: put_precedes_append)
  then have "\<exists>new. calls s2 = calls s @ new \<and> put_precedes_SetHead [] new
             \<and> (\<forall>ts \<in> set (newly_put new). HasTipSetAndState (chainStore s2) (String ts))"
    by blast
  moreover have "SyncMode s2 = SyncMode s" "badTipSets s \<subseteq> badTipSets s2"
    "\<forall>k. HasTipSetAndState (chainStore s) k \<longrightarrow> HasTipSetAndState (chainStore s2) k"
    "blocks (chainStore s) \<subseteq> blocks (chainStore s2)"
    "head_in_store s \<longrightarrow> head_in_store s2"
    "store_consistent (chainStore s) \<longrightarrow> store_consistent (chainStore s2)"
    using assms by (auto simp: extends_def)
  ultimately show ?thesis unfolding extends_def by blast
qed

lemma extends_bad:
  "extends s s' \<Longrightarrow> badTipSets s' \<subseteq> B \<Longrightarrow> extends s (s'\<lparr>badTipSets := B\<rparr>)"
  unfolding extends_def head_in_store_def by auto

lemma list_all_update:
  "list_all P al \<Longrightarrow> P (k, v) \<Longrightarrow> list_all P (AList.update k v al)"
  by (induction al) auto

lemma stored_consistent:
  "store_consistent (chainStore s) \<Longrightarrow> store_consistent (chainStore (stored s next root))"
  unfolding store_consistent_def stored_def
  by (auto simp: String_def intro!: list_all_update elim!: list.pred_mono_strong)

lemma head_update_consistent:
  "store_consistent (store\<lparr>head := h\<rparr>) = store_consistent store"
  by (simp add: store_consistent_def)

lemma syncOne_consistent:
  assumes "syncOne env s parent next = (r, s')"
  shows "store_consistent (chainStore s) \<longrightarrow> store_consistent (chainStore s')"
  using assms unfolding syncOne_phases
  by (auto simp: stored_consistent head_update_consistent split: if_splits sum.splits prod.splits)

lemma syncOne_extends:
  assumes "syncOne env s parent next = (r, s')"
  shows "extends s s'"
proof -
  have "\<exists>new. calls s' = calls s @ new \<and> put_precedes_SetHead [] new
             \<and> (\<forall>ts \<in> set (newly_put new). HasTipSetAndState (chainStore s') (String ts))"
    using syncOne_calls [OF assms]
    apply (elim disjE exE conjE)
       apply (rule exI [of _ "[]"], simp)
      apply (rule exI, rule conjI, assumption, simp)
     apply (rule exI, rule conjI, assumption, simp)
    apply (rule exI, rule conjI, assumption, simp)
    done
  moreover have "head_in_store s \<longrightarrow> head_in_store s'"
    using syncOne_head [OF assms] syncOne_store_mono [OF assms]
    by (auto simp: head_in_store_def String_def)
  ultimately show ?thesis
    using syncOne_frame [OF assms] syncOne_store_mono [OF assms] syncOne_consistent [OF assms]
    unfolding extends_def by auto
qed

lemma syncChain_extends:
  "syncChain env s parent i rest = (r, s') \<Longrightarrow> extends s s'"
proof (induction rest arbitrary: s parent i r s')
  case Nil
  then show ?case by (simp add: extends_refl)
next
  case (Cons ts rest)
  obtain r1 s1 where w: "(if i = 0 then
              (case widen s ts of
                 Inl err \<Rightarrow> (Some err, s)
               | Inr None \<Rightarrow> (None, s)
               | Inr (Some wts) \<Rightarrow> syncOne env s parent wts)
            else (None, s)) = (r1, s1)" by fastforce
  have e1: "extends s s1"
    using w by (auto simp: extends_refl syncOne_extends split: if_splits sum.splits option.splits)
  show ?case
  proof (cases r1)
    case (Some err)
    then have "s' = s1" using Cons.prems w by simp
    then show ?thesis using e1 by simp
  next
    case None
    obtain r2 s2 where o: "syncOne env s1 parent ts = (r2, s2)" by fastforce
    have e2: "extends s1 s2" using o by (rule syncOne_extends)
    show ?thesis
    proof (cases r2)
      case (Some err)
      then have "s' = s2\<lparr>badTipSets := AddChain (badTipSets s2) (ts # rest)\<rparr>"
        using Cons.prems w None o by simp
      moreover have "badTipSets s2 \<subseteq> AddChain (badTipSets s2) (ts # rest)"
        by (auto simp: AddChain_eq Add_def)
      ultimately show ?thesis using extends_trans [OF e1 e2] extends_bad by metis
    next
      case n2: None
      then have "syncChain env s2 ts (Suc i) rest = (r, s')"
        using Cons.prems w None o by simp
      from Cons.IH [OF this] extends_trans [OF e1 e2] show ?thesis
        by (rule extends_trans [rotated])
    qed
  qed
qed

lemma extends_cache_only:
  "chainStore s' = chainStore s \<Longrightarrow> calls s' = calls s \<Longrightarrow> SyncMode s' = SyncMode s
     \<Longrightarrow> badTipSets s \<subseteq> badTipSets s' \<Longrightarrow> extends s s'"
  unfolding extends_def head_in_store_def by simp

lemma collectChain_loop_extends:
  assumes "collectChain_loop env s c chain = Some (res, s')"
  shows "extends s s'"
  using collectChain_loop_frame [OF assms] collectChain_loop_bad_mono [OF assms]
  by (intro extends_cache_only) simp_all

lemma HandleNewTipset_extends:
  assumes "HandleNewTipset env s K = Some (r, s')"
  shows "extends s s'"
proof (cases "HasAllBlocks (chainStore s) K")
  case True
  then show ?thesis using assms by (simp add: HandleNewTipset_def extends_refl)
next
  case False
  then obtain res s1 where c: "collectChain_loop env s K [] = Some (res, s1)"
    using assms by (auto simp: HandleNewTipset_def collectChain_def split: option.splits)
  have e1: "extends s s1" using c by (rule collectChain_loop_extends)
  show ?thesis
  proof (cases res)
    case (Inl err)
    then show ?thesis using assms False c e1 by (simp add: HandleNewTipset_def collectChain_def)
  next
    case (Inr chain)
    then have "s' = s1 \<or> (\<exists>p. syncChain env s1 p 0 chain = (r, s'))"
      using assms False c
      by (auto simp: HandleNewTipset_def collectChain_def split: list.splits sum.splits)
    then show ?thesis using e1 syncChain_extends extends_trans by blast
  qed
qed

subsection \<open>The comparison of weights in syncOne\<close>

text \<open>
  When \<open>next\<close> is not the head, passes every step up to \<^verbatim>\<open>PutTipSetAndState\<close>, and the
  lookups that follow succeed, \<open>syncOne\<close> is decided by the answer of \<^verbatim>\<open>IsHeavier\<close> on the
  values looked up.
\<close>

lemma tipSetState_calls:
  "tipSetState env (s\<lparr>calls := c\<rparr>) k = tipSetState env s k"
  by (simp add: tipSetState_def)

lemma tipSetState_IsHeavier_update:
  "tipSetState (env\<lparr>IsHeavier := f\<rparr>) s k = tipSetState env s k"
  by (simp add: tipSetState_def split: sum.splits)

lemma syncOne_weighing:
  assumes other: "GetHead (chainStore s) \<noteq> ToSortedCidSet next"
      and parentSt: "tipSetState env s (ToSortedCidSet parent) = Inr st"
      and height: "Height next = Inr h"
      and ancestors: "GetRecentAncestors env (chainStore s) parent h = Inr ancestors"
      and transition: "RunStateTransition env next ancestors st = Inr st'"
      and flush: "Flush env st' = Inr root"
      and put: "PutTipSetAndState (chainStore s) \<lparr>TipSet = next, TipSetStateRoot = root\<rparr>
                  = Inr store1"
      and nextParentSt: "tipSetState env (s\<lparr>chainStore := store1\<rparr>) (ToSortedCidSet parent)
                  = Inr nextParentSt"
      and headTipSet: "GetTipSet store1 (GetHead (chainStore s)) = Inr headTipSet"
      and headParents: "Parents headTipSet = Inr headParentCids"
      and headParentSt: "case headParentSt of
                  None \<Rightarrow> headParentCids = []
                | Some t \<Rightarrow> headParentCids \<noteq> []
                    \<and> tipSetState env (s\<lparr>chainStore := store1\<rparr>) headParentCids = Inr t"
  shows "syncOne env s parent next =
     (case IsHeavier env next headTipSet nextParentSt headParentSt of
        Inl err \<Rightarrow> (Some err, s\<lparr>chainStore := store1,
            calls := calls s @ [CallPutTipSetAndState \<lparr>TipSet = next, TipSetStateRoot = root\<rparr>,
                        CallIsHeavier next headTipSet nextParentSt headParentSt]\<rparr>)
      | Inr heavier \<Rightarrow>
          if heavier then
            (case CollectTipSetsOfHeightAtLeast env store1 parent 0 of
               Inl err \<Rightarrow> (Some err, s\<lparr>chainStore := store1,
                   calls := calls s @ [CallPutTipSetAndState \<lparr>TipSet = next, TipSetStateRoot = root\<rparr>,
                        CallIsHeavier next headTipSet nextParentSt headParentSt]\<rparr>)
             | Inr newChain \<Rightarrow> (None, s\<lparr>chainStore := store1\<lparr>head := ToSortedCidSet next\<rparr>,
                   calls := calls s @ [CallPutTipSetAndState \<lparr>TipSet = next, TipSetStateRoot = root\<rparr>,
                        CallIsHeavier next headTipSet nextParentSt headParentSt, CallSetHead next]\<rparr>))
          else (None, s\<lparr>chainStore := store1,
            calls := calls s @ [CallPutTipSetAndState \<lparr>TipSet = next, TipSetStateRoot = root\<rparr>,
                        CallIsHeavier next headTipSet nextParentSt headParentSt]\<rparr>))"
proof (cases headParentSt)
  case None
  then have "headParentCids = []" using headParentSt by simp
  then show ?thesis
    unfolding syncOne_def Let_def
    using other parentSt height ancestors transition flush put nextParentSt headTipSet
      headParents None
    by (simp add: SetHead_def tipSetState_calls split: sum.splits)
next
  case (Some t)
  then have "headParentCids \<noteq> []"
    "tipSetState env (s\<lparr>chainStore := store1\<rparr>) headParentCids = Inr t"
    using headParentSt by simp_all
  then show ?thesis
    unfolding syncOne_def Let_def
    using other parentSt height ancestors transition flush put nextParentSt headTipSet
      headParents Some
    by (simp add: SetHead_def tipSetState_calls split: sum.splits)
qed

lemma put_lookups:
  assumes "PutTipSetAndState store \<lparr>TipSet = next, TipSetStateRoot = root\<rparr> = Inr store1"
  shows "GetTipSet store1 (ToSortedCidSet next) = Inr next"
    and "GetTipSetStateRoot store1 (ToSortedCidSet next) = Inr root"
    and "GetHead store1 = GetHead store"
  using assms
  by (auto simp: PutTipSetAndState_def GetTipSet_def GetTipSetStateRoot_def GetHead_def
        String_def update_conv')

lemma newStateRoot_steps:
  assumes "tipSetState env s (ToSortedCidSet parent) = Inr st"
      and "Height next = Inr h"
      and "GetRecentAncestors env (chainStore s) parent h = Inr ancestors"
      and "RunStateTransition env next ancestors st = Inr st'"
      and "Flush env st' = Inr root"
  shows "newStateRoot env s parent next = Inr root"
  using assms by (simp add: newStateRoot_def)

lemma stored_put:
  assumes "PutTipSetAndState (chainStore s) \<lparr>TipSet = next, TipSetStateRoot = root\<rparr> = Inr store1"
  shows "stored s next root = s\<lparr>chainStore := store1,
            calls := calls s @ [CallPutTipSetAndState \<lparr>TipSet = next, TipSetStateRoot = root\<rparr>]\<rparr>"
  using assms by (auto simp: stored_def PutTipSetAndState_def)

lemma weighArgs_steps:
  assumes "weighArgs env s1 parent hd0 = Inr (headTipSet, nextParentSt, headParentSt)"
  shows "\<exists>headParentCids.
           tipSetState env s1 (ToSortedCidSet parent) = Inr nextParentSt
         \<and> GetTipSet (chainStore s1) hd0 = Inr headTipSet
         \<and> Parents headTipSet = Inr headParentCids
         \<and> (case headParentSt of
               None \<Rightarrow> headParentCids = []
             | Some t \<Rightarrow> headParentCids \<noteq> [] \<and> tipSetState env s1 headParentCids = Inr t)"
  using assms unfolding weighArgs_def
  by (auto split: sum.splits if_splits)

lemma demo_syncOne_collect_fails:
  "syncOne demo_env_collect_fails demo_syncer [genesis] [b1]
       = (Some (ErrExternal 5),
          demo_syncer_b1\<lparr>chainStore := (chainStore demo_syncer_b1)\<lparr>head := [0]\<rparr>,
             calls := [CallPutTipSetAndState \<lparr>TipSet = [b1], TipSetStateRoot = 1\<rparr>,
                       CallIsHeavier [b1] [genesis] 0 None]\<rparr>)"
  by (simp add: model_defs demo_defs demo_env_collect_fails_def)

lemma demo_syncOne_needs_tree:
  "syncOne demo_env_needs_tree demo_syncer [genesis] [b1]
       = (Some (ErrExternal 6),
          demo_syncer_b1\<lparr>chainStore := (chainStore demo_syncer_b1)\<lparr>head := [0]\<rparr>,
             calls := [CallPutTipSetAndState \<lparr>TipSet = [b1], TipSetStateRoot = 1\<rparr>,
                       CallIsHeavier [b1] [genesis] 0 None]\<rparr>)"
  by (simp add: model_defs demo_defs demo_env_needs_tree_def)

subsection \<open>The forward loop\<close>

text \<open>The optional widening at the start of an iteration of the forward loop.\<close>

lemma syncChain_Cons:
  "syncChain env s parent i (ts # rest) = (r, s') \<longleftrightarrow>
     (\<exists>r1 s1. (if i = 0 then
              (case widen s ts of
                 Inl err \<Rightarrow> (Some err, s)
               | Inr None \<Rightarrow> (None, s)
               | Inr (Some wts) \<Rightarrow> syncOne env s parent wts)
            else (None, s)) = (r1, s1) \<and>
        (case r1 of
           Some err \<Rightarrow> r = Some err \<and> s' = s1
         | None \<Rightarrow>
            (\<exists>r2 s2. syncOne env s1 parent ts = (r2, s2) \<and>
              (case r2 of
                 Some err \<Rightarrow> r = Some err
                    \<and> s' = s2\<lparr>badTipSets := AddChain (badTipSets s2) (ts # rest)\<rparr>
               | None \<Rightarrow> syncChain env s2 ts (Suc i) rest = (r, s')))))"
  by (auto split: option.splits prod.splits simp del: AddChain.simps)

lemma syncChain_append:
  "syncChain env s parent i pre = (None, sm) \<Longrightarrow>
     syncChain env s parent i (pre @ rest) =
       syncChain env sm (last (parent # pre)) (i + length pre) rest"
proof (induction pre arbitrary: s parent i)
  case Nil
  then show ?case by simp
next
  case (Cons t pre)
  from Cons.prems obtain s1 s2 where
    w: "(if i = 0 then
              (case widen s t of
                 Inl err \<Rightarrow> (Some err, s)
               | Inr None \<Rightarrow> (None, s)
               | Inr (Some wts) \<Rightarrow> syncOne env s parent wts)
            else (None, s)) = (None, s1)"
    and o: "syncOne env s1 parent t = (None, s2)"
    and r: "syncChain env s2 t (Suc i) pre = (None, sm)"
    unfolding syncChain_Cons by (auto split: option.splits)
  have "syncChain env s parent i ((t # pre) @ rest) = syncChain env s2 t (Suc i) (pre @ rest)"
    using w o by (simp del: AddChain.simps)
  also have "\<dots> = syncChain env sm (last (t # pre)) (Suc i + length pre) rest"
    using r by (rule Cons.IH)
  finally show ?case by simp
qed

lemma syncChain_bad:
  "syncChain env s parent i chain = (r, s') \<Longrightarrow>
     badTipSets s' = badTipSets s
     \<or> (\<exists>j<length chain. \<exists>sj pj sf. syncOne env sj pj (chain ! j) = (r, sf) \<and> r \<noteq> None
           \<and> badTipSets s' = AddChain (badTipSets s) (drop j chain))"
proof (induction chain arbitrary: s parent i)
  case Nil
  then show ?case by simp
next
  case (Cons t chain)
  from Cons.prems obtain r1 s1 where
    w: "(if i = 0 then
              (case widen s t of
                 Inl err \<Rightarrow> (Some err, s)
               | Inr None \<Rightarrow> (None, s)
               | Inr (Some wts) \<Rightarrow> syncOne env s parent wts)
            else (None, s)) = (r1, s1)"
    and rest: "(case r1 of
           Some err \<Rightarrow> r = Some err \<and> s' = s1
         | None \<Rightarrow>
            (\<exists>r2 s2. syncOne env s1 parent t = (r2, s2) \<and>
              (case r2 of
                 Some err \<Rightarrow> r = Some err
                    \<and> s' = s2\<lparr>badTipSets := AddChain (badTipSets s2) (t # chain)\<rparr>
               | None \<Rightarrow> syncChain env s2 t (Suc i) chain = (r, s'))))"
    unfolding syncChain_Cons by blast
  have b1: "badTipSets s1 = badTipSets s"
    using w by (auto split: if_splits sum.splits option.splits dest: syncOne_frame)
  show ?case
  proof (cases r1)
    case (Some err)
    then show ?thesis using rest b1 by simp
  next
    case None
    then obtain r2 s2 where o: "syncOne env s1 parent t = (r2, s2)"
      and rest2: "(case r2 of
                 Some err \<Rightarrow> r = Some err
                    \<and> s' = s2\<lparr>badTipSets := AddChain (badTipSets s2) (t # chain)\<rparr>
               | None \<Rightarrow> syncChain env s2 t (Suc i) chain = (r, s'))"
      using rest by auto
    have b2: "badTipSets s2 = badTipSets s" using syncOne_frame [OF o] b1 by simp
    show ?thesis
    proof (cases r2)
      case (Some err)
      then have "syncOne env s1 parent ((t # chain) ! 0) = (r, s2) \<and> r \<noteq> None
           \<and> badTipSets s' = AddChain (badTipSets s) (drop 0 (t # chain))"
        using rest2 o b2 by (simp del: AddChain.simps)
      then show ?thesis by (intro disjI2 exI [of _ 0]) (simp del: AddChain.simps, blast)
    next
      case n: None
      then have "syncChain env s2 t (Suc i) chain = (r, s')" using rest2 by simp
      from Cons.IH [OF this] show ?thesis
      proof
        assume "badTipSets s' = badTipSets s2"
        then show ?thesis using b2 by simp
      next
        assume "\<exists>j<length chain. \<exists>sj pj sf. syncOne env sj pj (chain ! j) = (r, sf) \<and> r \<noteq> None
           \<and> badTipSets s' = AddChain (badTipSets s2) (drop j chain)"
        then obtain j sj pj sf where "j < length chain"
          "syncOne env sj pj (chain ! j) = (r, sf)" "r \<noteq> None"
          "badTipSets s' = AddChain (badTipSets s2) (drop j chain)" by blast
        then have "Suc j < length (t # chain) \<and> syncOne env sj pj ((t # chain) ! Suc j) = (r, sf) \<and> r \<noteq> None
           \<and> badTipSets s' = AddChain (badTipSets s) (drop (Suc j) (t # chain))"
          using b2 by simp
        then show ?thesis by blast
      qed
    qed
  qed
qed

subsection \<open>Widening\<close>

lemma biggest_spec:
  "\<exists>r. biggest m cs = r \<and>
     length (TipSet m) \<le> length (TipSet r) \<and>
     (\<forall>c \<in> set cs. length (TipSet c) \<le> length (TipSet r)) \<and>
     ((r = m \<and> (\<forall>c \<in> set cs. length (TipSet c) \<le> length (TipSet m)))
      \<or> (\<exists>i<length cs. cs ! i = r \<and> length (TipSet m) < length (TipSet r)
            \<and> (\<forall>j<i. length (TipSet (cs ! j)) < length (TipSet r))))"
proof (induction cs arbitrary: m)
  case Nil
  show ?case by simp
next
  case (Cons c cs)
  show ?case
  proof (cases "length (TipSet c) > length (TipSet m)")
    case True
    from Cons.IH [of c] obtain r where r: "biggest c cs = r"
      "length (TipSet c) \<le> length (TipSet r)"
      "\<forall>x \<in> set cs. length (TipSet x) \<le> length (TipSet r)"
      "(r = c \<and> (\<forall>x \<in> set cs. length (TipSet x) \<le> length (TipSet c)))
      \<or> (\<exists>i<length cs. cs ! i = r \<and> length (TipSet c) < length (TipSet r)
            \<and> (\<forall>j<i. length (TipSet (cs ! j)) < length (TipSet r)))" by blast
    from r(4) have "\<exists>i<length (c # cs). (c # cs) ! i = r \<and> length (TipSet m) < length (TipSet r)
            \<and> (\<forall>j<i. length (TipSet ((c # cs) ! j)) < length (TipSet r))"
    proof
      assume "r = c \<and> (\<forall>x \<in> set cs. length (TipSet x) \<le> length (TipSet c))"
      then show ?thesis using True by (intro exI [of _ 0]) simp
    next
      assume "\<exists>i<length cs. cs ! i = r \<and> length (TipSet c) < length (TipSet r)
            \<and> (\<forall>j<i. length (TipSet (cs ! j)) < length (TipSet r))"
      then obtain i where i: "i < length cs" "cs ! i = r" "length (TipSet c) < length (TipSet r)"
        "\<forall>j<i. length (TipSet (cs ! j)) < length (TipSet r)" by blast
      have "\<forall>j<Suc i. length (TipSet ((c # cs) ! j)) < length (TipSet r)"
        using i(3,4) by (auto simp: nth_Cons split: nat.splits)
      then show ?thesis using i True by (intro exI [of _ "Suc i"]) simp
    qed
    then show ?thesis using r True by simp
  next
    case False
    from Cons.IH [of m] obtain r where r: "biggest m cs = r"
      "length (TipSet m) \<le> length (TipSet r)"
      "\<forall>x \<in> set cs. length (TipSet x) \<le> length (TipSet r)"
      "(r = m \<and> (\<forall>x \<in> set cs. length (TipSet x) \<le> length (TipSet m)))
      \<or> (\<exists>i<length cs. cs ! i = r \<and> length (TipSet m) < length (TipSet r)
            \<and> (\<forall>j<i. length (TipSet (cs ! j)) < length (TipSet r)))" by blast
    from r(4) have "(r = m \<and> (\<forall>x \<in> set (c # cs). length (TipSet x) \<le> length (TipSet m)))
      \<or> (\<exists>i<length (c # cs). (c # cs) ! i = r \<and> length (TipSet m) < length (TipSet r)
            \<and> (\<forall>j<i. length (TipSet ((c # cs) ! j)) < length (TipSet r)))"
    proof
      assume "r = m \<and> (\<forall>x \<in> set cs. length (TipSet x) \<le> length (TipSet m))"
      then show ?thesis using False by auto
    next
      assume "\<exists>i<length cs. cs ! i = r \<and> length (TipSet m) < length (TipSet r)
            \<and> (\<forall>j<i. length (TipSet (cs ! j)) < length (TipSet r))"
      then obtain i where i: "i < length cs" "cs ! i = r" "length (TipSet m) < length (TipSet r)"
        "\<forall>j<i. length (TipSet (cs ! j)) < length (TipSet r)" by blast
      have "\<forall>j<Suc i. length (TipSet ((c # cs) ! j)) < length (TipSet r)"
        using i(3,4) False by (auto simp: nth_Cons split: nat.splits)
      then have "Suc i < length (c # cs) \<and> (c # cs) ! Suc i = r \<and> length (TipSet m) < length (TipSet r)
            \<and> (\<forall>j<Suc i. length (TipSet ((c # cs) ! j)) < length (TipSet r))"
        using i by simp
      then show ?thesis by blast
    qed
    then show ?thesis using r False by auto
  qed
qed

text \<open>The candidate that widen picks: the first of those with the most blocks.\<close>

lemma biggest_first_max:
  assumes "candidates = c0 # rest"
  shows "\<exists>i<length candidates. biggest c0 candidates = candidates ! i
     \<and> (\<forall>c \<in> set candidates. length (TipSet c) \<le> length (TipSet (candidates ! i)))
     \<and> (\<forall>j<i. length (TipSet (candidates ! j)) < length (TipSet (candidates ! i)))"
proof -
  from biggest_spec [of c0 candidates] obtain r where r: "biggest c0 candidates = r"
    "\<forall>c \<in> set candidates. length (TipSet c) \<le> length (TipSet r)"
    "(r = c0 \<and> (\<forall>c \<in> set candidates. length (TipSet c) \<le> length (TipSet c0)))
      \<or> (\<exists>i<length candidates. candidates ! i = r \<and> length (TipSet c0) < length (TipSet r)
            \<and> (\<forall>j<i. length (TipSet (candidates ! j)) < length (TipSet r)))" by blast
  from r(3) show ?thesis
  proof
    assume "r = c0 \<and> (\<forall>c \<in> set candidates. length (TipSet c) \<le> length (TipSet c0))"
    then show ?thesis using r(1) assms by (intro exI [of _ 0]) simp
  next
    assume "\<exists>i<length candidates. candidates ! i = r \<and> length (TipSet c0) < length (TipSet r)
            \<and> (\<forall>j<i. length (TipSet (candidates ! j)) < length (TipSet r))"
    then show ?thesis using r(1,2) by auto
  qed
qed

lemma put_block_cids: "set (map Cid (put_block b ts)) = insert (Cid b) (set (map Cid ts))"
  by (induction ts) auto

lemma put_block_hd:
  "ts \<noteq> [] \<Longrightarrow> BlockParents b = BlockParents (hd ts) \<Longrightarrow> BlockHeight b = BlockHeight (hd ts)
     \<Longrightarrow> put_block b ts \<noteq> [] \<and> BlockParents (hd (put_block b ts)) = BlockParents (hd ts)
         \<and> BlockHeight (hd (put_block b ts)) = BlockHeight (hd ts)"
  by (cases ts) auto

lemma put_block_sorted:
  "sorted_wrt (<) (map Cid ts) \<Longrightarrow> sorted_wrt (<) (map Cid (put_block b ts))"
  by (induction ts) (auto simp: put_block_cids [simplified])

lemma AddBlocks_uniform:
  assumes "ts \<noteq> []"
      and "\<forall>b \<in> set bs. BlockParents b = BlockParents (hd ts) \<and> BlockHeight b = BlockHeight (hd ts)"
  shows "\<exists>wts. AddBlocks ts bs = Inr wts \<and> wts \<noteq> []
       \<and> set (map Cid wts) = set (map Cid ts) \<union> set (map Cid bs)
       \<and> (sorted_wrt (<) (map Cid ts) \<longrightarrow> sorted_wrt (<) (map Cid wts))"
  using assms
proof (induction bs arbitrary: ts)
  case Nil
  then show ?case by simp
next
  case (Cons b bs)
  have ab: "AddBlock ts b = Inr (put_block b ts)"
    using Cons.prems by (cases ts) (auto simp: AddBlock_def Height_def Parents_def)
  have hd: "put_block b ts \<noteq> [] \<and> BlockParents (hd (put_block b ts)) = BlockParents (hd ts)
         \<and> BlockHeight (hd (put_block b ts)) = BlockHeight (hd ts)"
    using Cons.prems by (intro put_block_hd) auto
  with Cons.prems have "\<forall>x \<in> set bs. BlockParents x = BlockParents (hd (put_block b ts))
       \<and> BlockHeight x = BlockHeight (hd (put_block b ts))" by simp
  from Cons.IH [OF _ this] hd obtain wts where w:
    "AddBlocks (put_block b ts) bs = Inr wts" "wts \<noteq> []"
    "set (map Cid wts) = set (map Cid (put_block b ts)) \<union> set (map Cid bs)"
    "sorted_wrt (<) (map Cid (put_block b ts)) \<longrightarrow> sorted_wrt (<) (map Cid wts)" by blast
  from w(3) have "set (map Cid wts) = insert (Cid b) (set (map Cid ts)) \<union> set (map Cid bs)"
    by (simp only: put_block_cids)
  then have c: "set (map Cid wts) = set (map Cid ts) \<union> set (map Cid (b # bs))" by auto
  have s: "sorted_wrt (<) (map Cid ts) \<longrightarrow> sorted_wrt (<) (map Cid wts)"
    using w(4) put_block_sorted by blast
  have "AddBlocks ts (b # bs) = Inr wts" using ab w(1) by simp
  then show ?case using w(2) c s by blast
qed

lemma candidates_char:
  assumes "GetTipSetAndStatesByParentsAndHeight store parentSet height = Inr candidates"
  shows "set candidates = {tsas \<in> snd ` set (tipIndex store).
            Parents (TipSet tsas) = Inr parentSet \<and> Height (TipSet tsas) = Inr height}"
    and "HasTipSetAndStatesWithParentsAndHeight store parentSet height \<longleftrightarrow> candidates \<noteq> []"
  using assms
  by (force simp: GetTipSetAndStatesByParentsAndHeight_def
        HasTipSetAndStatesWithParentsAndHeight_def)+

lemma uniform_blocks:
  assumes "uniform ts" "Parents ts = Inr parentSet" "Height ts = Inr height" "b \<in> set ts"
  shows "BlockParents b = parentSet \<and> BlockHeight b = height"
  using assms by (auto simp: uniform_def list_all_iff)

subsection \<open>More concrete runs\<close>

lemma demo_syncOne_b2:
  "syncOne demo_env demo_syncer [genesis] [b2] =
     (None, \<lparr>chainStore =
        \<lparr>tipIndex = [([0], \<lparr>TipSet = [genesis], TipSetStateRoot = 0\<rparr>),
                     ([2], \<lparr>TipSet = [b2], TipSetStateRoot = 1\<rparr>)],
         head = [2], blocks = {2, 0}\<rparr>,
      badTipSets = {}, SyncMode = Syncing, calls =
        [CallPutTipSetAndState \<lparr>TipSet = [b2], TipSetStateRoot = 1\<rparr>,
         CallIsHeavier [b2] [genesis] 0 None, CallSetHead [b2]]\<rparr>)"
  by (simp add: model_defs demo_defs)

lemma demo_prefix_b2:
  "\<exists>sm. syncChain demo_env demo_syncer [genesis] 0 [[b2]] = (None, sm)
      \<and> syncOne demo_env sm [b2] [b4] = (Some (ErrExternal 3), sm)"
  by (simp add: demo_syncOne_b2) (simp add: model_defs demo_defs)

lemma demo_widen_b4: "widen demo_syncer_b3 [b4] = Inr (Some [b3, b4])"
  by (simp add: model_defs demo_defs)

lemma demo_collect_4:
  "collectChain demo_env demo_syncer_b3 [4] = Some (Inr [[b4]], demo_syncer_b3)"
  by (simp add: model_defs demo_defs collectChain_loop.simps)

lemma demo_syncOne_widened:
  "syncOne demo_env demo_syncer_b3 [b2] [b3, b4] = (Some (ErrExternal 3), demo_syncer_b3)"
  by (simp add: model_defs demo_defs)

subsection \<open>A second call in succession\<close>

lemma collectChain_loop_fails_again:
  assumes "collectChain_loop env s c chain = Some y"
  shows "(\<exists>e. fst y = Inl e) \<longrightarrow>
           (\<exists>e'. collectChain_loop env (snd y) c chain = Some (Inl e', snd y))"
  using assms
proof (induction rule: collectChain_loop_induct)
  case (TooLong c chain)
  then show ?case by (subst collectChain_loop.simps) simp
next
  case (Known c chain)
  then show ?case by simp
next
  case (Bad c chain)
  then show ?case by (subst collectChain_loop.simps) simp
next
  case (Fetch c chain err)
  then show ?case by (subst collectChain_loop.simps) simp
next
  case (Invalid c chain blks err)
  then show ?case
    by (subst collectChain_loop.simps) (simp add: AddChain_eq Add_def Has_def)
next
  case (NoParents c chain blks ts err)
  then show ?case by (subst collectChain_loop.simps) simp
next
  case (Step c chain blks ts parents y)
  show ?case
  proof
    assume f: "\<exists>e. fst y = Inl e"
    with Step.IH obtain e' where
      again: "collectChain_loop env (snd y) parents (ts # chain) = Some (Inl e', snd y)" by blast
    from collectChain_loop_frame [OF Step.hyps(7)]
    have fr: "chainStore (snd y) = chainStore s" "SyncMode (snd y) = SyncMode s" by simp_all
    show "\<exists>e'. collectChain_loop env (snd y) c chain = Some (Inl e', snd y)"
    proof (cases "Has (badTipSets (snd y)) c")
      case True
      then show ?thesis using Step.hyps fr by (subst collectChain_loop.simps) simp
    next
      case False
      then have "collectChain_loop env (snd y) c chain
                   = collectChain_loop env (snd y) parents (ts # chain)"
        using Step.hyps fr by (subst collectChain_loop.simps) simp
      with again show ?thesis by simp
    qed
  qed
qed

lemma collectChain_loop_last:
  assumes "collectChain_loop env s c chain = Some y"
  shows "fst y = Inr res \<longrightarrow>
           (chain \<noteq> [] \<longrightarrow> last res = last chain)
         \<and> (chain = [] \<longrightarrow> res \<noteq> [] \<longrightarrow>
               (\<exists>blks. getBlksMaybeFromNet env c = Inr blks
                  \<and> NewValidTipSet env blks = Inr (last res)))"
  using assms
  by (induction rule: collectChain_loop_induct) auto

lemma syncOne_changed:
  assumes "syncOne env s parent next = (r, s')"
  shows "s' = s \<or> length (calls s) < length (calls s')"
  using syncOne_calls [OF assms] by auto

lemma extends_calls_length:
  "extends s s' \<Longrightarrow> length (calls s) \<le> length (calls s')"
  unfolding extends_def by auto

lemma syncChain_failure_cases:
  "syncChain env s parent i chain = (Some e, s') \<Longrightarrow>
     String (last chain) \<in> badTipSets s' \<or> s' = s \<or> length (calls s) < length (calls s')"
proof (induction chain arbitrary: s parent i)
  case Nil
  then show ?case by simp
next
  case (Cons t chain)
  from Cons.prems obtain r1 s1 where
    w: "(if i = 0 then
              (case widen s t of
                 Inl err \<Rightarrow> (Some err, s)
               | Inr None \<Rightarrow> (None, s)
               | Inr (Some wts) \<Rightarrow> syncOne env s parent wts)
            else (None, s)) = (r1, s1)"
    and rest: "(case r1 of
           Some err \<Rightarrow> Some e = Some err \<and> s' = s1
         | None \<Rightarrow>
            (\<exists>r2 s2. syncOne env s1 parent t = (r2, s2) \<and>
              (case r2 of
                 Some err \<Rightarrow> Some e = Some err
                    \<and> s' = s2\<lparr>badTipSets := AddChain (badTipSets s2) (t # chain)\<rparr>
               | None \<Rightarrow> syncChain env s2 t (Suc i) chain = (Some e, s'))))"
    unfolding syncChain_Cons by blast
  have c1: "s1 = s \<or> length (calls s) < length (calls s1)"
    using w by (auto split: if_splits sum.splits option.splits dest: syncOne_changed)
  show ?case
  proof (cases r1)
    case (Some err)
    then show ?thesis using rest c1 by auto
  next
    case None
    then obtain r2 s2 where o: "syncOne env s1 parent t = (r2, s2)"
      and rest2: "(case r2 of
                 Some err \<Rightarrow> Some e = Some err
                    \<and> s' = s2\<lparr>badTipSets := AddChain (badTipSets s2) (t # chain)\<rparr>
               | None \<Rightarrow> syncChain env s2 t (Suc i) chain = (Some e, s'))"
      using rest by auto
    have c2: "s2 = s \<or> length (calls s) < length (calls s2)"
      using syncOne_changed [OF o] c1 by auto
    show ?thesis
    proof (cases r2)
      case (Some err)
      then have "badTipSets s' = AddChain (badTipSets s2) (t # chain)"
        using rest2 by simp
      then have "String (last (t # chain)) \<in> badTipSets s'"
        by (simp add: AddChain_eq Add_def del: AddChain.simps)
      then show ?thesis by simp
    next
      case n: None
      then have run: "syncChain env s2 t (Suc i) chain = (Some e, s')" using rest2 by simp
      then have ne: "chain \<noteq> []" by auto
      from Cons.IH [OF run] extends_calls_length [OF syncChain_extends [OF run]] c2 ne
      show ?thesis by auto
    qed
  qed
qed

text \<open>
  What a successful run of the forward loop leaves behind, whatever the store was before:
  the blocks of the last tipset are in the store, unless the run changed nothing.
\<close>

lemma covered_refl: "covered s s"
  by (simp add: covered_def)

lemma covered_trans:
  assumes a: "covered s1 s2" and b: "covered s2 s3"
  shows "covered s1 s3"
proof -
  have blk: "blocks (chainStore s1) \<subseteq> blocks (chainStore s2)"
      "blocks (chainStore s2) \<subseteq> blocks (chainStore s3)"
    using a b unfolding covered_def by blast+
  have "HasTipSetAndState (chainStore s1) k \<or> set k \<subseteq> blocks (chainStore s3)"
    if "HasTipSetAndState (chainStore s3) k" for k
  proof -
    from that b have "HasTipSetAndState (chainStore s2) k \<or> set k \<subseteq> blocks (chainStore s3)"
      unfolding covered_def by blast
    moreover have "HasTipSetAndState (chainStore s1) k \<or> set k \<subseteq> blocks (chainStore s2)"
      if "HasTipSetAndState (chainStore s2) k"
      using that a unfolding covered_def by blast
    ultimately show ?thesis using blk by blast
  qed
  moreover have "GetHead (chainStore s3) = GetHead (chainStore s1)
           \<or> set (GetHead (chainStore s3)) \<subseteq> blocks (chainStore s3)"
  proof -
    have "GetHead (chainStore s3) = GetHead (chainStore s2)
           \<or> set (GetHead (chainStore s3)) \<subseteq> blocks (chainStore s3)"
      using b unfolding covered_def by blast
    moreover have "GetHead (chainStore s2) = GetHead (chainStore s1)
           \<or> set (GetHead (chainStore s2)) \<subseteq> blocks (chainStore s2)"
      using a unfolding covered_def by blast
    ultimately show ?thesis using blk by auto
  qed
  moreover have "head_in_store s1 \<longrightarrow> head_in_store s3"
    using a b unfolding covered_def by blast
  ultimately show ?thesis using blk unfolding covered_def by blast
qed

lemma syncOne_covered:
  assumes "syncOne env s parent next = (r, s')"
  shows "covered s s'"
  using assms unfolding syncOne_phases covered_def head_in_store_def
  by (auto simp: stored_all String_def split: if_splits sum.splits prod.splits)

lemma GetTipSet_Has:
  "GetTipSet store k = Inr ts \<Longrightarrow> HasTipSetAndState store k"
  by (auto simp: GetTipSet_def HasTipSetAndState_def split: option.splits)

text \<open>
  A call of \<open>syncOne\<close> that returns success either found \<open>next\<close> to be the head and
  changed nothing, or put \<open>next\<close> and looked the head up in the store.
\<close>

lemma syncOne_success_head:
  assumes "syncOne env s parent next = (None, s')"
  shows "(s' = s \<and> GetHead (chainStore s) = ToSortedCidSet next)
       \<or> (head_in_store s' \<and> set (String next) \<subseteq> blocks (chainStore s'))"
  using assms unfolding syncOne_phases head_in_store_def
  by (auto simp: stored_all String_def split: if_splits sum.splits prod.splits
           dest!: weighArgs_head GetTipSet_Has)

lemma syncChain_success_covered:
  "syncChain env s parent i chain = (None, s') \<Longrightarrow>
     covered s s' \<and> (s' = s \<or> head_in_store s')
     \<and> (chain \<noteq> [] \<longrightarrow>
           set (String (last chain)) \<subseteq> blocks (chainStore s')
         \<or> HasTipSetAndState (chainStore s) (String (last chain))
         \<or> (s' = s \<and> GetHead (chainStore s) = String (last chain)))"
proof (induction chain arbitrary: s parent i)
  case Nil
  then show ?case by (simp add: covered_refl)
next
  case (Cons t chain)
  from Cons.prems(1) obtain s1 s2 where
    w: "(if i = 0 then
              (case widen s t of
                 Inl err \<Rightarrow> (Some err, s)
               | Inr None \<Rightarrow> (None, s)
               | Inr (Some wts) \<Rightarrow> syncOne env s parent wts)
            else (None, s)) = (None, s1)"
    and o: "syncOne env s1 parent t = (None, s2)"
    and r: "syncChain env s2 t (Suc i) chain = (None, s')"
    unfolding syncChain_Cons by (auto split: option.splits)
  have c1: "covered s s1 \<and> (s1 = s \<or> head_in_store s1)"
    using w
    by (auto simp: covered_refl split: if_splits sum.splits option.splits
             dest: syncOne_covered syncOne_success_head)
  have c2: "covered s1 s2" using o by (rule syncOne_covered)
  have h2: "(s2 = s1 \<and> GetHead (chainStore s1) = String t)
          \<or> (head_in_store s2 \<and> set (String t) \<subseteq> blocks (chainStore s2))"
    using syncOne_success_head [OF o] by (simp add: String_def)
  have c02: "covered s s2" using c1 c2 covered_trans by blast
  have hs2: "s2 = s \<or> head_in_store s2" using c1 h2 by auto
  from Cons.IH [OF r] have c3: "covered s2 s'" and hs3: "s' = s2 \<or> head_in_store s'"
    and l3: "chain \<noteq> [] \<longrightarrow>
           set (String (last chain)) \<subseteq> blocks (chainStore s')
         \<or> HasTipSetAndState (chainStore s2) (String (last chain))
         \<or> (s' = s2 \<and> GetHead (chainStore s2) = String (last chain))"
    by blast+
  have c03: "covered s s'" using c02 c3 covered_trans by blast
  have hs: "s' = s \<or> head_in_store s'" using hs2 hs3 c3 unfolding covered_def by auto
  have key: "\<And>k. GetHead (chainStore s2) = k \<Longrightarrow>
      set k \<subseteq> blocks (chainStore s2) \<or> HasTipSetAndState (chainStore s) k
        \<or> (s2 = s \<and> GetHead (chainStore s) = k)"
    using c02 hs2 unfolding covered_def head_in_store_def by metis
  have stored2: "\<And>k. HasTipSetAndState (chainStore s2) k \<Longrightarrow>
      set k \<subseteq> blocks (chainStore s2) \<or> HasTipSetAndState (chainStore s) k"
    using c02 unfolding covered_def by blast
  have b23: "blocks (chainStore s2) \<subseteq> blocks (chainStore s')"
    using c3 unfolding covered_def by blast
  have "set (String (last (t # chain))) \<subseteq> blocks (chainStore s')
         \<or> HasTipSetAndState (chainStore s) (String (last (t # chain)))
         \<or> (s' = s \<and> GetHead (chainStore s) = String (last (t # chain)))"
  proof (cases "chain = []")
    case True
    then have e: "s' = s2" using r by simp
    from h2 show ?thesis
    proof
      assume a: "s2 = s1 \<and> GetHead (chainStore s1) = String t"
      then have "GetHead (chainStore s2) = String t" by simp
      from key [OF this] show ?thesis using True e by auto
    next
      assume "head_in_store s2 \<and> set (String t) \<subseteq> blocks (chainStore s2)"
      then show ?thesis using True e by simp
    qed
  next
    case False
    with l3 consider
        "set (String (last chain)) \<subseteq> blocks (chainStore s')"
      | "HasTipSetAndState (chainStore s2) (String (last chain))"
      | "s' = s2" "GetHead (chainStore s2) = String (last chain)"
      by blast
    then show ?thesis
    proof cases
      case 1
      then show ?thesis using False by simp
    next
      case 2
      from stored2 [OF 2] b23 show ?thesis using False by auto
    next
      case 3
      from key [OF 3(2)] b23 3(1) show ?thesis using False by auto
    qed
  qed
  with c03 hs show ?case by blast
qed

text \<open>The walk stops at once, with no tipset collected, on a key that the store holds.\<close>

lemma collectChain_loop_known:
  "HasTipSetAndState (chainStore s) K \<Longrightarrow> collectChain_loop env s K [] = Some (Inr [], s)"
  by (subst collectChain_loop.simps) (simp add: FinalityLimit_def)

text \<open>A call on a key that the cache holds changes nothing.\<close>

lemma HandleNewTipset_bad_key:
  assumes "Has (badTipSets s) K"
  shows "\<exists>r. HandleNewTipset env s K = Some (r, s)"
proof (cases "HasAllBlocks (chainStore s) K")
  case True
  then show ?thesis by (simp add: HandleNewTipset_def)
next
  case False
  have "collectChain env s K = Some (Inr [], s)
      \<or> collectChain env s K = Some (Inl ErrChainHasBadTipSet, s)"
    unfolding collectChain_def using assms
    by (subst collectChain_loop.simps, simp add: FinalityLimit_def)+
  then show ?thesis using False by (auto simp: HandleNewTipset_def)
qed

lemma demo_first_call:
  "HandleNewTipset demo_env_weigh_fails demo_syncer_b1 [3]
     = Some (Some (ErrExternal 4), demo_after_failed_widen)"
  by (simp add: model_defs demo_defs demo_env_weigh_fails_def demo_after_failed_widen_def
        collectChain_loop.simps) auto

lemma demo_second_call:
  "\<exists>s2. HandleNewTipset demo_env_weigh_fails demo_after_failed_widen [3] = Some (None, s2)
     \<and> GetHead (chainStore s2) = [3] \<and> HasTipSetAndState (chainStore s2) [3]"
  by (simp add: model_defs demo_defs demo_env_weigh_fails_def demo_after_failed_widen_def
        collectChain_loop.simps)

lemma demo_run_4:
  "\<exists>s'. HandleNewTipset demo_env demo_syncer [4] = Some (Some (ErrExternal 3), s')
      \<and> Has (badTipSets s') [4]"
  by (simp add: model_defs demo_defs collectChain_loop.simps)

section \<open>The claims of the specification\<close>

subsection \<open>C1: when the head moves to the new tipset\<close>

text \<open>
  Claim C1, as the code has it. Consider a call \<open>syncOne(parent, next)\<close> in which \<open>next\<close>
  is not the head, passes \<^verbatim>\<open>RunStateTransition\<close> and is persisted with its state root,
  \<open>store1\<close> being the store after \<^verbatim>\<open>PutTipSetAndState\<close>. Then \<open>next\<close> and its state root
  are in the store when \<open>syncOne\<close> returns, whatever happens afterwards, and the head is
  then \<open>next\<close> or the head of before. The head is \<open>next\<close> only if the lookups that follow
  the write succeeded, \<^verbatim>\<open>IsHeavier\<close> returned true on their results, and the collection
  of the tipsets of the new chain reported no error. Let these results be \<open>nextParentSt\<close>,
  the state of the parent, \<open>headTipSet\<close>, the tipset of the head, and \<open>headParentSt\<close>,
  the state of the parents of the head, nil when it has none. Then the head is \<open>next\<close>
  afterwards if and only if
  \<^verbatim>\<open>IsHeavier(next, headTipSet, nextParentSt, headParentSt)\<close> returns true and both
  \<^verbatim>\<open>CollectTipSetsOfHeightAtLeast\<close>, which collects the tipsets of the new chain for the
  log of the reorganisation, and \<^verbatim>\<open>SetHead\<close> report no error. When \<^verbatim>\<open>IsHeavier\<close> returns
  false, \<open>syncOne\<close> returns success and the head is unchanged; \<open>syncOne\<close> returns success
  in this case and when the head moved, and in no other. When \<^verbatim>\<open>IsHeavier\<close> returns true
  and the collection reports an error, \<open>syncOne\<close> returns that error and the head is
  unchanged. The calls completed are \<^verbatim>\<open>PutTipSetAndState\<close>, \<^verbatim>\<open>IsHeavier\<close> with these
  arguments, and \<^verbatim>\<open>SetHead(next)\<close> exactly when the head moved.
\<close>

theorem syncOne_head_iff_heavier:
  assumes other: "GetHead (chainStore s) \<noteq> ToSortedCidSet next"
      and parentSt: "tipSetState env s (ToSortedCidSet parent) = Inr st"
      and height: "Height next = Inr h"
      and ancestors: "GetRecentAncestors env (chainStore s) parent h = Inr ancestors"
      and transition: "RunStateTransition env next ancestors st = Inr st'"
      and flush: "Flush env st' = Inr root"
      and put: "PutTipSetAndState (chainStore s) \<lparr>TipSet = next, TipSetStateRoot = root\<rparr>
                  = Inr store1"
  shows "GetTipSet (chainStore (snd (syncOne env s parent next))) (ToSortedCidSet next) = Inr next
       \<and> GetTipSetStateRoot (chainStore (snd (syncOne env s parent next))) (ToSortedCidSet next)
           = Inr root
       \<and> (GetHead (chainStore (snd (syncOne env s parent next))) \<noteq> ToSortedCidSet next
            \<longrightarrow> GetHead (chainStore (snd (syncOne env s parent next))) = GetHead (chainStore s))
       \<and> (GetHead (chainStore (snd (syncOne env s parent next))) = ToSortedCidSet next
            \<longrightarrow> (\<exists>nextParentSt headTipSet headParentCids headParentSt.
                   tipSetState env (s\<lparr>chainStore := store1\<rparr>) (ToSortedCidSet parent)
                     = Inr nextParentSt
                 \<and> GetTipSet store1 (GetHead (chainStore s)) = Inr headTipSet
                 \<and> Parents headTipSet = Inr headParentCids
                 \<and> (case headParentSt of
                       None \<Rightarrow> headParentCids = []
                     | Some t \<Rightarrow> headParentCids \<noteq> []
                         \<and> tipSetState env (s\<lparr>chainStore := store1\<rparr>) headParentCids = Inr t)
                 \<and> IsHeavier env next headTipSet nextParentSt headParentSt = Inr True
                 \<and> (\<exists>newChain.
                        CollectTipSetsOfHeightAtLeast env store1 parent 0 = Inr newChain)))
       \<and> (\<forall>nextParentSt headTipSet headParentCids headParentSt.
             tipSetState env (s\<lparr>chainStore := store1\<rparr>) (ToSortedCidSet parent) = Inr nextParentSt
           \<and> GetTipSet store1 (GetHead (chainStore s)) = Inr headTipSet
           \<and> Parents headTipSet = Inr headParentCids
           \<and> (case headParentSt of
                 None \<Rightarrow> headParentCids = []
               | Some t \<Rightarrow> headParentCids \<noteq> []
                   \<and> tipSetState env (s\<lparr>chainStore := store1\<rparr>) headParentCids = Inr t)
           \<longrightarrow>
             (GetHead (chainStore (snd (syncOne env s parent next))) = ToSortedCidSet next
                \<longleftrightarrow> IsHeavier env next headTipSet nextParentSt headParentSt = Inr True
                  \<and> (\<exists>newChain. CollectTipSetsOfHeightAtLeast env store1 parent 0 = Inr newChain)
                  \<and> (\<exists>store3. SetHead store1 next = Inr store3))
           \<and> (IsHeavier env next headTipSet nextParentSt headParentSt = Inr False
                \<longrightarrow> fst (syncOne env s parent next) = None
                  \<and> GetHead (chainStore (snd (syncOne env s parent next))) = GetHead (chainStore s))
           \<and> (fst (syncOne env s parent next) = None
                \<longleftrightarrow> IsHeavier env next headTipSet nextParentSt headParentSt = Inr False
                  \<or> GetHead (chainStore (snd (syncOne env s parent next))) = ToSortedCidSet next)
           \<and> (\<forall>err. IsHeavier env next headTipSet nextParentSt headParentSt = Inr True
                  \<and> CollectTipSetsOfHeightAtLeast env store1 parent 0 = Inl err
                \<longrightarrow> fst (syncOne env s parent next) = Some err
                  \<and> GetHead (chainStore (snd (syncOne env s parent next))) = GetHead (chainStore s))
           \<and> calls (snd (syncOne env s parent next))
               = calls s @ [CallPutTipSetAndState \<lparr>TipSet = next, TipSetStateRoot = root\<rparr>,
                            CallIsHeavier next headTipSet nextParentSt headParentSt]
                   @ (if GetHead (chainStore (snd (syncOne env s parent next))) = ToSortedCidSet next
                      then [CallSetHead next] else []))"
proof -
  note look = put_lookups [OF put]
  note root = newStateRoot_steps [OF parentSt height ancestors transition flush]
  note st = stored_put [OF put]
  have general:
    "GetTipSet (chainStore (snd (syncOne env s parent next))) (ToSortedCidSet next) = Inr next
       \<and> GetTipSetStateRoot (chainStore (snd (syncOne env s parent next))) (ToSortedCidSet next)
           = Inr root
       \<and> (GetHead (chainStore (snd (syncOne env s parent next))) \<noteq> ToSortedCidSet next
            \<longrightarrow> GetHead (chainStore (snd (syncOne env s parent next))) = GetHead (chainStore s))"
    unfolding syncOne_phases using other root look
    by (auto simp: st head_update_simps split: sum.splits prod.splits)
  have onlyif: "\<exists>nextParentSt headTipSet headParentCids headParentSt.
                   tipSetState env (s\<lparr>chainStore := store1\<rparr>) (ToSortedCidSet parent)
                     = Inr nextParentSt
                 \<and> GetTipSet store1 (GetHead (chainStore s)) = Inr headTipSet
                 \<and> Parents headTipSet = Inr headParentCids
                 \<and> (case headParentSt of
                       None \<Rightarrow> headParentCids = []
                     | Some t \<Rightarrow> headParentCids \<noteq> []
                         \<and> tipSetState env (s\<lparr>chainStore := store1\<rparr>) headParentCids = Inr t)
                 \<and> IsHeavier env next headTipSet nextParentSt headParentSt = Inr True
                 \<and> (\<exists>newChain.
                        CollectTipSetsOfHeightAtLeast env store1 parent 0 = Inr newChain)"
    if moved: "GetHead (chainStore (snd (syncOne env s parent next))) = ToSortedCidSet next"
  proof -
    from moved other root look obtain headTipSet nextParentSt headParentSt where
      w: "weighArgs env (stored s next root) parent (GetHead (chainStore s))
            = Inr (headTipSet, nextParentSt, headParentSt)"
      and h: "IsHeavier env next headTipSet nextParentSt headParentSt = Inr True"
      and c: "\<exists>newChain. CollectTipSetsOfHeightAtLeast env store1 parent 0 = Inr newChain"
      unfolding syncOne_phases
      by (auto simp: st head_update_simps split: sum.splits prod.splits if_splits)
    from weighArgs_steps [OF w] obtain headParentCids where
      "tipSetState env (s\<lparr>chainStore := store1\<rparr>) (ToSortedCidSet parent) = Inr nextParentSt
       \<and> GetTipSet store1 (GetHead (chainStore s)) = Inr headTipSet
       \<and> Parents headTipSet = Inr headParentCids
       \<and> (case headParentSt of
             None \<Rightarrow> headParentCids = []
           | Some t \<Rightarrow> headParentCids \<noteq> []
               \<and> tipSetState env (s\<lparr>chainStore := store1\<rparr>) headParentCids = Inr t)"
      unfolding st by (auto simp: tipSetState_calls cong: option.case_cong)
    with h c show ?thesis by blast
  qed
  have weighed: "(GetHead (chainStore (snd (syncOne env s parent next))) = ToSortedCidSet next
                \<longleftrightarrow> IsHeavier env next headTipSet nextParentSt headParentSt = Inr True
                  \<and> (\<exists>newChain. CollectTipSetsOfHeightAtLeast env store1 parent 0 = Inr newChain)
                  \<and> (\<exists>store3. SetHead store1 next = Inr store3))
           \<and> (IsHeavier env next headTipSet nextParentSt headParentSt = Inr False
                \<longrightarrow> fst (syncOne env s parent next) = None
                  \<and> GetHead (chainStore (snd (syncOne env s parent next))) = GetHead (chainStore s))
           \<and> (fst (syncOne env s parent next) = None
                \<longleftrightarrow> IsHeavier env next headTipSet nextParentSt headParentSt = Inr False
                  \<or> GetHead (chainStore (snd (syncOne env s parent next))) = ToSortedCidSet next)
           \<and> (\<forall>err. IsHeavier env next headTipSet nextParentSt headParentSt = Inr True
                  \<and> CollectTipSetsOfHeightAtLeast env store1 parent 0 = Inl err
                \<longrightarrow> fst (syncOne env s parent next) = Some err
                  \<and> GetHead (chainStore (snd (syncOne env s parent next))) = GetHead (chainStore s))
           \<and> calls (snd (syncOne env s parent next))
               = calls s @ [CallPutTipSetAndState \<lparr>TipSet = next, TipSetStateRoot = root\<rparr>,
                            CallIsHeavier next headTipSet nextParentSt headParentSt]
                   @ (if GetHead (chainStore (snd (syncOne env s parent next))) = ToSortedCidSet next
                      then [CallSetHead next] else [])"
    if nextParentSt: "tipSetState env (s\<lparr>chainStore := store1\<rparr>) (ToSortedCidSet parent)
                  = Inr nextParentSt"
      and headTipSet: "GetTipSet store1 (GetHead (chainStore s)) = Inr headTipSet"
      and headParents: "Parents headTipSet = Inr headParentCids"
      and headParentSt: "case headParentSt of
                  None \<Rightarrow> headParentCids = []
                | Some t \<Rightarrow> headParentCids \<noteq> []
                    \<and> tipSetState env (s\<lparr>chainStore := store1\<rparr>) headParentCids = Inr t"
    for nextParentSt headTipSet headParentCids headParentSt
    unfolding syncOne_weighing [OF assms that]
    using look other
    by (auto simp: head_update_simps SetHead_def split: sum.splits)
  from general onlyif weighed show ?thesis by blast
qed

text \<open>
  The claim as stated fails when \<^verbatim>\<open>IsHeavier\<close> returns true and the collection of the
  tipsets of the new chain reports an error. In the run below the head is the genesis
  tipset and \<open>next\<close> is the tipset of \<open>b1\<close>: it passes the state transition and is put
  into the store with its state root, \<^verbatim>\<open>IsHeavier\<close> is called and returns true, and
  \<open>syncOne\<close> returns the error of the collection; the head is still the genesis tipset.
\<close>

theorem syncOne_head_iff_heavier_counterexample:
  "IsHeavier demo_env_collect_fails [b1] [genesis] 0 None = Inr True
   \<and> fst (syncOne demo_env_collect_fails demo_syncer [genesis] [b1]) = Some (ErrExternal 5)
   \<and> GetHead (chainStore demo_syncer) = [0]
   \<and> GetHead (chainStore (snd (syncOne demo_env_collect_fails demo_syncer [genesis] [b1]))) = [0]
   \<and> ToSortedCidSet [b1] = [1]
   \<and> GetTipSet (chainStore (snd (syncOne demo_env_collect_fails demo_syncer [genesis] [b1])))
         (ToSortedCidSet [b1]) = Inr [b1]
   \<and> GetTipSetStateRoot (chainStore (snd (syncOne demo_env_collect_fails demo_syncer [genesis] [b1])))
         (ToSortedCidSet [b1]) = Inr 1
   \<and> calls (snd (syncOne demo_env_collect_fails demo_syncer [genesis] [b1]))
       = [CallPutTipSetAndState \<lparr>TipSet = [b1], TipSetStateRoot = 1\<rparr>,
          CallIsHeavier [b1] [genesis] 0 None]"
  by (simp add: demo_syncOne_collect_fails)
     (simp add: model_defs demo_defs demo_env_collect_fails_def)

theorem syncOne_head_iff_heavier_witness:
  "IsHeavier demo_env [b1] [genesis] 0 None = Inr True
   \<and> fst (syncOne demo_env demo_syncer [genesis] [b1]) = None
   \<and> GetHead (chainStore (snd (syncOne demo_env demo_syncer [genesis] [b1]))) = ToSortedCidSet [b1]
   \<and> IsHeavier demo_env [b2] [b1] 0 (Some 0) = Inr False
   \<and> fst (syncOne demo_env demo_syncer_b1 [genesis] [b2]) = None
   \<and> GetHead (chainStore (snd (syncOne demo_env demo_syncer_b1 [genesis] [b2])))
       = GetHead (chainStore demo_syncer_b1)
   \<and> GetTipSet (chainStore (snd (syncOne demo_env demo_syncer_b1 [genesis] [b2])))
         (ToSortedCidSet [b2]) = Inr [b2]
   \<and> IsHeavier demo_env_collect_fails [b1] [genesis] 0 None = Inr True
   \<and> fst (syncOne demo_env_collect_fails demo_syncer [genesis] [b1]) = Some (ErrExternal 5)
   \<and> GetHead (chainStore (snd (syncOne demo_env_collect_fails demo_syncer [genesis] [b1])))
       = GetHead (chainStore demo_syncer)"
proof -
  have other: "GetHead (chainStore demo_syncer) \<noteq> ToSortedCidSet [b1]"
    and parentSt: "tipSetState demo_env demo_syncer (ToSortedCidSet [genesis]) = Inr 0"
    and height: "Height [b1] = Inr 1"
    and ancestors: "GetRecentAncestors demo_env (chainStore demo_syncer) [genesis] 1 = Inr []"
    and transition: "RunStateTransition demo_env [b1] [] 0 = Inr 1"
    and flush: "Flush demo_env 1 = Inr 1"
    and put: "PutTipSetAndState (chainStore demo_syncer) \<lparr>TipSet = [b1], TipSetStateRoot = 1\<rparr>
                = Inr (chainStore demo_syncer_b1\<lparr>head := [0]\<rparr>)"
    by (simp_all add: model_defs demo_defs)
  have looked: "tipSetState demo_env
                (demo_syncer\<lparr>chainStore := chainStore demo_syncer_b1\<lparr>head := [0]\<rparr>\<rparr>)
                (ToSortedCidSet [genesis]) = Inr 0
      \<and> GetTipSet (chainStore demo_syncer_b1\<lparr>head := [0]\<rparr>)
                (GetHead (chainStore demo_syncer)) = Inr [genesis]
      \<and> Parents [genesis] = Inr []
      \<and> (case None of
            None \<Rightarrow> ([] :: SortedCidSet) = []
          | Some t \<Rightarrow> [] \<noteq> ([] :: SortedCidSet)
              \<and> tipSetState demo_env
                   (demo_syncer\<lparr>chainStore := chainStore demo_syncer_b1\<lparr>head := [0]\<rparr>\<rparr>)
                   [] = Inr t)"
    by (simp add: model_defs demo_defs)
  have heavier: "IsHeavier demo_env [b1] [genesis] 0 None = Inr True"
    and collected: "CollectTipSetsOfHeightAtLeast demo_env
      (chainStore demo_syncer_b1\<lparr>head := [0]\<rparr>) [genesis] 0 = Inr []"
    and moved: "SetHead (chainStore demo_syncer_b1\<lparr>head := [0]\<rparr>) [b1]
      = Inr (chainStore demo_syncer_b1)"
    by (simp_all add: SetHead_def ToSortedCidSet_def demo_defs)
  note t1 = syncOne_head_iff_heavier [OF other parentSt height ancestors transition flush put]
  from t1 [THEN conjunct2, THEN conjunct2, THEN conjunct2, THEN conjunct2, rule_format,
           OF looked]
    heavier collected moved
  have a: "fst (syncOne demo_env demo_syncer [genesis] [b1]) = None
     \<and> GetHead (chainStore (snd (syncOne demo_env demo_syncer [genesis] [b1]))) = ToSortedCidSet [b1]"
    by simp
  have other2: "GetHead (chainStore demo_syncer_b1) \<noteq> ToSortedCidSet [b2]"
    and parentSt2: "tipSetState demo_env demo_syncer_b1 (ToSortedCidSet [genesis]) = Inr 0"
    and height2: "Height [b2] = Inr 1"
    and ancestors2: "GetRecentAncestors demo_env (chainStore demo_syncer_b1) [genesis] 1 = Inr []"
    and transition2: "RunStateTransition demo_env [b2] [] 0 = Inr 1"
    and put2: "PutTipSetAndState (chainStore demo_syncer_b1) \<lparr>TipSet = [b2], TipSetStateRoot = 1\<rparr>
                = Inr (chainStore demo_syncer_b1_b2)"
    by (simp_all add: model_defs demo_defs demo_syncer_b1_b2_def)
  have looked2: "tipSetState demo_env
                (demo_syncer_b1\<lparr>chainStore := chainStore demo_syncer_b1_b2\<rparr>)
                (ToSortedCidSet [genesis]) = Inr 0
      \<and> GetTipSet (chainStore demo_syncer_b1_b2)
                (GetHead (chainStore demo_syncer_b1)) = Inr [b1]
      \<and> Parents [b1] = Inr [0]
      \<and> (case Some 0 of
            None \<Rightarrow> [0] = ([] :: SortedCidSet)
          | Some t \<Rightarrow> [0] \<noteq> ([] :: SortedCidSet)
              \<and> tipSetState demo_env
                   (demo_syncer_b1\<lparr>chainStore := chainStore demo_syncer_b1_b2\<rparr>)
                   [0] = Inr t)"
    by (simp add: model_defs demo_defs demo_syncer_b1_b2_def)
  have lighter: "IsHeavier demo_env [b2] [b1] 0 (Some 0) = Inr False"
    by (simp add: demo_defs)
  note t2 = syncOne_head_iff_heavier [OF other2 parentSt2 height2 ancestors2 transition2 flush put2]
  from t2 [THEN conjunct1]
    t2 [THEN conjunct2, THEN conjunct2, THEN conjunct2, THEN conjunct2, rule_format, OF looked2]
    lighter
  have b: "fst (syncOne demo_env demo_syncer_b1 [genesis] [b2]) = None
     \<and> GetHead (chainStore (snd (syncOne demo_env demo_syncer_b1 [genesis] [b2])))
         = GetHead (chainStore demo_syncer_b1)
     \<and> GetTipSet (chainStore (snd (syncOne demo_env demo_syncer_b1 [genesis] [b2])))
         (ToSortedCidSet [b2]) = Inr [b2]"
    by simp
  have parentSt3: "tipSetState demo_env_collect_fails demo_syncer (ToSortedCidSet [genesis]) = Inr 0"
    and ancestors3: "GetRecentAncestors demo_env_collect_fails (chainStore demo_syncer) [genesis] 1
                = Inr []"
    and transition3: "RunStateTransition demo_env_collect_fails [b1] [] 0 = Inr 1"
    and flush3: "Flush demo_env_collect_fails 1 = Inr 1"
    by (simp_all add: model_defs demo_defs demo_env_collect_fails_def)
  have looked3: "tipSetState demo_env_collect_fails
                (demo_syncer\<lparr>chainStore := chainStore demo_syncer_b1\<lparr>head := [0]\<rparr>\<rparr>)
                (ToSortedCidSet [genesis]) = Inr 0
      \<and> GetTipSet (chainStore demo_syncer_b1\<lparr>head := [0]\<rparr>)
                (GetHead (chainStore demo_syncer)) = Inr [genesis]
      \<and> Parents [genesis] = Inr []
      \<and> (case None of
            None \<Rightarrow> ([] :: SortedCidSet) = []
          | Some t \<Rightarrow> [] \<noteq> ([] :: SortedCidSet)
              \<and> tipSetState demo_env_collect_fails
                   (demo_syncer\<lparr>chainStore := chainStore demo_syncer_b1\<lparr>head := [0]\<rparr>\<rparr>)
                   [] = Inr t)"
    by (simp add: model_defs demo_defs demo_env_collect_fails_def)
  have fails: "IsHeavier demo_env_collect_fails [b1] [genesis] 0 None = Inr True"
      "CollectTipSetsOfHeightAtLeast demo_env_collect_fails
         (chainStore demo_syncer_b1\<lparr>head := [0]\<rparr>) [genesis] 0 = Inl (ErrExternal 5)"
    by (simp_all add: demo_defs demo_env_collect_fails_def)
  note t3 = syncOne_head_iff_heavier [OF other parentSt3 height ancestors3 transition3 flush3 put]
  from t3 [THEN conjunct2, THEN conjunct2, THEN conjunct2, THEN conjunct2, rule_format,
           OF looked3]
    fails
  have c: "fst (syncOne demo_env_collect_fails demo_syncer [genesis] [b1]) = Some (ErrExternal 5)
     \<and> GetHead (chainStore (snd (syncOne demo_env_collect_fails demo_syncer [genesis] [b1])))
         = GetHead (chainStore demo_syncer)"
    by simp
  from a b c heavier lighter fails(1) show ?thesis by simp
qed

subsection \<open>C2: the finality limit of the backward walk\<close>

text \<open>
  Claim C2. \<^verbatim>\<open>FinalityLimit\<close> is 600. When the loop of \<open>collectChain\<close> is entered with
  neither \<^verbatim>\<open>SyncMode == Syncing\<close> nor fewer than \<^verbatim>\<open>FinalityLimit\<close> collected tipsets, it
  fails with \<^verbatim>\<open>ErrNewChainTooLong\<close>, returns no tipsets and leaves the syncer as it was;
  so does a call of \<open>collectChain\<close> whose walk reaches such a point. The walk collects one
  more tipset only when one of the two conditions held for the tipsets collected before.
  No call of \<open>collectChain\<close> that returns writes to the chain store. In \<^verbatim>\<open>CaughtUp\<close>
  mode every call returns, and a returned chain has fewer than \<^verbatim>\<open>FinalityLimit\<close>
  tipsets.
\<close>

theorem collectChain_finality_limit:
  "FinalityLimit = 600
   \<and> (\<not> (SyncMode s = Syncing \<or> length chain < FinalityLimit) \<longrightarrow>
        collectChain_loop env s c chain = Some (Inl ErrNewChainTooLong, s))
   \<and> (reaches env s K [] c chain \<longrightarrow>
        \<not> (SyncMode s = Syncing \<or> length chain < FinalityLimit) \<longrightarrow>
        collectChain env s K = Some (Inl ErrNewChainTooLong, s))
   \<and> (reaches env s K [] c (ts # chain) \<longrightarrow>
        SyncMode s = Syncing \<or> length chain < FinalityLimit)
   \<and> (collectChain env s K = Some (res, s') \<longrightarrow>
        chainStore s' = chainStore s \<and> calls s' = calls s)
   \<and> (collectChain env s K = Some (Inr tipsets, s') \<longrightarrow> SyncMode s = CaughtUp \<longrightarrow>
        length tipsets < FinalityLimit)
   \<and> (SyncMode s = CaughtUp \<longrightarrow> (\<exists>y. collectChain env s K = Some y))"
proof (intro conjI impI)
  show "FinalityLimit = 600" by (simp add: FinalityLimit_def)
next
  assume "\<not> (SyncMode s = Syncing \<or> length chain < FinalityLimit)"
  then show "collectChain_loop env s c chain = Some (Inl ErrNewChainTooLong, s)"
    by (subst collectChain_loop.simps) simp
next
  assume r: "reaches env s K [] c chain"
    and "\<not> (SyncMode s = Syncing \<or> length chain < FinalityLimit)"
  then have "collectChain_loop env s c chain = Some (Inl ErrNewChainTooLong, s)"
    by (subst collectChain_loop.simps) simp
  with reaches_same_result [OF r]
  show "collectChain env s K = Some (Inl ErrNewChainTooLong, s)"
    by (simp add: collectChain_def)
next
  assume "reaches env s K [] c (ts # chain)"
  from reaches_added [OF this]
  show "SyncMode s = Syncing \<or> length chain < FinalityLimit" by auto
next
  assume "collectChain env s K = Some (res, s')"
  from collectChain_loop_frame [OF this [unfolded collectChain_def]]
  show "chainStore s' = chainStore s" by simp
next
  assume "collectChain env s K = Some (res, s')"
  from collectChain_loop_frame [OF this [unfolded collectChain_def]]
  show "calls s' = calls s" by simp
next
  assume "collectChain env s K = Some (Inr tipsets, s')" "SyncMode s = CaughtUp"
  from collectChain_loop_ok_length [OF this(1) [unfolded collectChain_def] _ this(2), of tipsets]
  show "length tipsets < FinalityLimit" by simp
next
  assume "SyncMode s = CaughtUp"
  then show "\<exists>y. collectChain env s K = Some y"
    unfolding collectChain_def by (rule collectChain_loop_returns_when_CaughtUp)
qed

theorem collectChain_finality_limit_witness:
  "collectChain long_env (demo_syncer\<lparr>SyncMode := CaughtUp\<rparr>) [1]
     = Some (Inl ErrNewChainTooLong, demo_syncer\<lparr>SyncMode := CaughtUp\<rparr>)
   \<and> chainStore (snd (the (collectChain demo_env demo_syncer [3]))) = chainStore demo_syncer
   \<and> FinalityLimit = 600"
proof -
  let ?s = "demo_syncer\<lparr>SyncMode := CaughtUp\<rparr>"
  have r: "reaches long_env ?s [1] [] [Suc FinalityLimit] (long_chain FinalityLimit)"
    by (rule long_reaches) simp
  have n: "\<not> (SyncMode ?s = Syncing \<or> length (long_chain FinalityLimit) < FinalityLimit)"
    by (simp add: length_long_chain)
  have "\<exists>res s2. collectChain demo_env demo_syncer [3] = Some (res, s2)"
    by (simp add: model_defs demo_defs collectChain_loop.simps)
  then obtain res s2 where col: "collectChain demo_env demo_syncer [3] = Some (res, s2)"
    by blast
  from collectChain_finality_limit
         [of ?s "long_chain FinalityLimit" long_env "[Suc FinalityLimit]" "[1]"] r n
  have "collectChain long_env ?s [1] = Some (Inl ErrNewChainTooLong, ?s)" by blast
  moreover from collectChain_finality_limit [of demo_syncer _ demo_env _ "[3]" _ res s2] col
  have "chainStore s2 = chainStore demo_syncer" by blast
  moreover from collectChain_finality_limit [of demo_syncer "[]" demo_env "[]" "[]"]
  have "FinalityLimit = 600" by blast
  ultimately show ?thesis using col by simp
qed

subsection \<open>C3: the head names a stored tipset\<close>

text \<open>
  Claim C3. Every operation of the syncer keeps the head key in the store. In \<open>syncOne\<close>
  the calls made are such that every \<^verbatim>\<open>SetHead(ts)\<close> comes after the completed
  \<^verbatim>\<open>PutTipSetAndState\<close> of \<open>ts\<close> in the same call, and if the head was in the store
  before, it is in the store after. \<open>collectChain\<close> makes no call that writes and keeps the
  head in the store. \<open>HandleNewTipset\<close> likewise: in the calls it makes every
  \<^verbatim>\<open>SetHead\<close> follows the \<^verbatim>\<open>PutTipSetAndState\<close> of its tipset, and \<^verbatim>\<open>GetHead()\<close> is
  the key of a stored tipset afterwards if it was before.
\<close>

theorem head_always_in_store:
  "(syncOne env s parent next = (r, s') \<longrightarrow>
      (\<exists>new. calls s' = calls s @ new \<and> put_precedes_SetHead [] new)
      \<and> (head_in_store s \<longrightarrow> head_in_store s'))
   \<and> (collectChain env s K = Some (res, s') \<longrightarrow> calls s' = calls s
      \<and> (head_in_store s \<longrightarrow> head_in_store s'))
   \<and> (HandleNewTipset env s K = Some (r, s') \<longrightarrow>
      (\<exists>new. calls s' = calls s @ new \<and> put_precedes_SetHead [] new)
      \<and> (head_in_store s \<longrightarrow> head_in_store s'))"
proof (intro conjI impI)
  assume "syncOne env s parent next = (r, s')"
  then have e: "extends s s'" by (rule syncOne_extends)
  from e show "\<exists>new. calls s' = calls s @ new \<and> put_precedes_SetHead [] new"
    unfolding extends_def by blast
  assume "head_in_store s"
  with e show "head_in_store s'" unfolding extends_def by blast
next
  assume c: "collectChain env s K = Some (res, s')"
  then have e: "extends s s'" unfolding collectChain_def by (rule collectChain_loop_extends)
  from c show "calls s' = calls s"
    unfolding collectChain_def by (auto dest: collectChain_loop_frame)
  assume "head_in_store s"
  with e show "head_in_store s'" unfolding extends_def by blast
next
  assume "HandleNewTipset env s K = Some (r, s')"
  then have e: "extends s s'" by (rule HandleNewTipset_extends)
  from e show "\<exists>new. calls s' = calls s @ new \<and> put_precedes_SetHead [] new"
    unfolding extends_def by blast
  assume "head_in_store s"
  with e show "head_in_store s'" unfolding extends_def by blast
qed


theorem head_always_in_store_witness:
  "head_in_store demo_syncer
   \<and> head_in_store (snd (syncOne demo_env demo_syncer [genesis] [b1]))
   \<and> head_in_store (snd (the (collectChain demo_env demo_syncer [3])))
   \<and> head_in_store (snd (the (HandleNewTipset demo_env demo_syncer [3])))"
proof -
  obtain s' where run: "HandleNewTipset demo_env demo_syncer [3] = Some (None, s')"
    using demo_run_3 by blast
  obtain r1 s1 where one: "syncOne demo_env demo_syncer [genesis] [b1] = (r1, s1)"
    by fastforce
  have "\<exists>res s2. collectChain demo_env demo_syncer [3] = Some (res, s2)"
    by (simp add: model_defs demo_defs collectChain_loop.simps)
  then obtain res s2 where col: "collectChain demo_env demo_syncer [3] = Some (res, s2)"
    by blast
  have h: "head_in_store demo_syncer"
    by (simp add: head_in_store_def model_defs demo_defs)
  from head_always_in_store [of demo_env demo_syncer _ _ None s' "[3]"] run h
  have "head_in_store s'" by blast
  moreover from head_always_in_store [of demo_env demo_syncer "[genesis]" "[b1]" r1 s1] one h
  have "head_in_store s1" by blast
  moreover from head_always_in_store [of demo_env demo_syncer _ _ _ s2 "[3]" res] col h
  have "head_in_store s2" by blast
  ultimately show ?thesis using h run one col by simp
qed

subsection \<open>C4: widening\<close>

text \<open>
  Claim C4. Let \<open>ts\<close> be a tipset with parents \<open>parentSet\<close> and height \<open>height\<close>, let
  \<open>candidates\<close> be what the store returns for them, which are all stored tipsets with the
  parents and the height of \<open>ts\<close>, in index order, and let the stored candidates be
  tipsets (all blocks of one have the same parents and height). If there is no candidate,
  \<open>widen\<close> returns none. Otherwise there is a candidate \<open>candidates ! i\<close> that has at
  least as many blocks as every candidate and more blocks than every candidate before it;
  adding its blocks to \<open>ts\<close> gives a tipset \<open>wts\<close> whose cids are the union of the cids of
  \<open>ts\<close> and of the candidate; and \<open>widen\<close> returns \<open>wts\<close>, unless the key of \<open>wts\<close> is the
  key of \<open>ts\<close> or of the candidate, in which case it returns none. An iteration of the
  forward loop of \<open>HandleNewTipset\<close> with an index other than 0 calls \<open>syncOne\<close> on the
  tipset and does not widen.
\<close>

theorem widen_union_of_biggest:
  assumes p: "Parents ts = Inr parentSet" and h: "Height ts = Inr height"
      and look: "GetTipSetAndStatesByParentsAndHeight (chainStore s) parentSet height = Inr candidates"
      and wf: "\<forall>c \<in> set candidates. uniform (TipSet c)"
  shows "set candidates = {tsas \<in> snd ` set (tipIndex (chainStore s)).
            Parents (TipSet tsas) = Parents ts \<and> Height (TipSet tsas) = Height ts}
     \<and> (candidates = [] \<longrightarrow> widen s ts = Inr None)
     \<and> (candidates \<noteq> [] \<longrightarrow>
          (\<exists>i<length candidates. \<exists>wts.
             (\<forall>c \<in> set candidates. length (TipSet c) \<le> length (TipSet (candidates ! i)))
           \<and> (\<forall>j<i. length (TipSet (candidates ! j)) < length (TipSet (candidates ! i)))
           \<and> AddBlocks ts (TipSet (candidates ! i)) = Inr wts
           \<and> set (ToSortedCidSet wts)
                = set (ToSortedCidSet ts) \<union> set (ToSortedCidSet (TipSet (candidates ! i)))
           \<and> widen s ts =
                Inr (if String wts = String ts \<or> String wts = String (TipSet (candidates ! i))
                     then None else Some wts)))
     \<and> (idx \<noteq> 0 \<longrightarrow>
          syncChain env s parent idx (t # rest) =
            (case syncOne env s parent t of
               (Some err, s2) \<Rightarrow>
                 (Some err, s2\<lparr>badTipSets := AddChain (badTipSets s2) (t # rest)\<rparr>)
             | (None, s2) \<Rightarrow> syncChain env s2 t (Suc idx) rest))"
proof (intro conjI impI)
  show "set candidates = {tsas \<in> snd ` set (tipIndex (chainStore s)).
            Parents (TipSet tsas) = Parents ts \<and> Height (TipSet tsas) = Height ts}"
    using candidates_char(1) [OF look] p h by simp
next
  assume "candidates = []"
  then show "widen s ts = Inr None"
    using p h look candidates_char(2) [OF look] by (simp add: widen_def)
next
  assume ne: "candidates \<noteq> []"
  then obtain c0 cs where cs: "candidates = c0 # cs" by (cases candidates) auto
  from biggest_first_max [OF cs] obtain i where i: "i < length candidates"
    "biggest c0 candidates = candidates ! i"
    "\<forall>c \<in> set candidates. length (TipSet c) \<le> length (TipSet (candidates ! i))"
    "\<forall>j<i. length (TipSet (candidates ! j)) < length (TipSet (candidates ! i))" by blast
  let ?m = "candidates ! i"
  have m: "?m \<in> set candidates" using i(1) by simp
  then have mp: "Parents (TipSet ?m) = Inr parentSet" "Height (TipSet ?m) = Inr height"
    using candidates_char(1) [OF look] by auto
  have tne: "ts \<noteq> []" using p by (auto simp: Parents_def)
  then have hd: "BlockParents (hd ts) = parentSet" "BlockHeight (hd ts) = height"
    using p h by (cases ts; simp add: Parents_def Height_def)+
  have "\<forall>b \<in> set (TipSet ?m). BlockParents b = BlockParents (hd ts)
           \<and> BlockHeight b = BlockHeight (hd ts)"
    using uniform_blocks [OF _ mp] wf m hd by blast
  from AddBlocks_uniform [OF tne this] obtain wts where wts:
    "AddBlocks ts (TipSet ?m) = Inr wts"
    "set (map Cid wts) = set (map Cid ts) \<union> set (map Cid (TipSet ?m))" by blast
  have "widen s ts =
      Inr (if String wts = String ts \<or> String wts = String (TipSet ?m) then None else Some wts)"
    using p h look candidates_char(2) [OF look] ne cs i(2) wts(1)
    by (simp add: widen_def Clone_def Let_def)
  with i wts show "\<exists>i<length candidates. \<exists>wts.
             (\<forall>c \<in> set candidates. length (TipSet c) \<le> length (TipSet (candidates ! i)))
           \<and> (\<forall>j<i. length (TipSet (candidates ! j)) < length (TipSet (candidates ! i)))
           \<and> AddBlocks ts (TipSet (candidates ! i)) = Inr wts
           \<and> set (ToSortedCidSet wts)
                = set (ToSortedCidSet ts) \<union> set (ToSortedCidSet (TipSet (candidates ! i)))
           \<and> widen s ts =
                Inr (if String wts = String ts \<or> String wts = String (TipSet (candidates ! i))
                     then None else Some wts)"
    unfolding ToSortedCidSet_def by blast
next
  assume "idx \<noteq> 0"
  then show "syncChain env s parent idx (t # rest) =
            (case syncOne env s parent t of
               (Some err, s2) \<Rightarrow>
                 (Some err, s2\<lparr>badTipSets := AddChain (badTipSets s2) (t # rest)\<rparr>)
             | (None, s2) \<Rightarrow> syncChain env s2 t (Suc idx) rest)"
    by (simp del: AddChain.simps)
qed

theorem widen_union_of_biggest_witness:
  "widen demo_syncer_b1 [b2] = Inr (Some [b1, b2])
   \<and> GetTipSetAndStatesByParentsAndHeight (chainStore demo_syncer_b1) [0] 1
        = Inr [\<lparr>TipSet = [b1], TipSetStateRoot = 1\<rparr>]
   \<and> set (ToSortedCidSet [b1, b2]) = set (ToSortedCidSet [b2]) \<union> set (ToSortedCidSet [b1])"
proof -
  have p: "Parents [b2] = Inr [0]" and h: "Height [b2] = Inr 1"
    by (simp_all add: Parents_def Height_def b2_def)
  have look: "GetTipSetAndStatesByParentsAndHeight (chainStore demo_syncer_b1) [0] 1
        = Inr [\<lparr>TipSet = [b1], TipSetStateRoot = 1\<rparr>]"
    by (simp add: model_defs demo_defs)
  have wf: "\<forall>c \<in> set [\<lparr>TipSet = [b1], TipSetStateRoot = 1\<rparr>]. uniform (TipSet c)"
    by (simp add: uniform_def Parents_def Height_def)
  have add: "AddBlocks [b2] [b1] = Inr [b1, b2]"
    by (simp add: model_defs demo_defs)
  from widen_union_of_biggest [OF p h look wf, of 1 demo_env "[genesis]" "[b2]" "[]"] add
  have "widen demo_syncer_b1 [b2] = Inr (Some [b1, b2])"
    by (simp add: String_def ToSortedCidSet_def b1_def b2_def)
  then show ?thesis using look by (auto simp: ToSortedCidSet_def)
qed

subsection \<open>C5: a failure of syncOne in the forward loop\<close>

text \<open>
  Claim C5. Let the forward loop of \<open>HandleNewTipset\<close>, started at index \<open>i\<close> with parent
  \<open>parent\<close>, run over the tipsets \<open>pre\<close> without error, and let \<open>syncOne\<close> then fail with
  \<open>err\<close> on the next tipset \<open>ts\<close> of the chain, called with the last synced tipset as
  parent (for the first tipset of the chain, after the widening found nothing or the
  widened tipset was synced). Then the loop over the whole chain returns \<open>err\<close>; the cache
  afterwards is the cache before with the keys of \<open>ts\<close> and of every later tipset of the
  chain added; and every tipset of the store before the failing call, in particular every
  tipset put by the earlier calls of this invocation, is still in the store.
\<close>

theorem syncChain_failure_marks_descendants:
  assumes prefix: "syncChain env s parent i pre = (None, sm)"
      and first: "i + length pre = 0 \<longrightarrow>
                    (widen sm ts = Inr None \<and> sw = sm)
                    \<or> (\<exists>wts. widen sm ts = Inr (Some wts) \<and> syncOne env sm parent wts = (None, sw))"
      and later: "i + length pre \<noteq> 0 \<longrightarrow> sw = sm"
      and fail: "syncOne env sw (last (parent # pre)) ts = (Some err, sf)"
  shows "syncChain env s parent i (pre @ ts # post)
           = (Some err, sf\<lparr>badTipSets := AddChain (badTipSets sf) (ts # post)\<rparr>)
       \<and> (\<forall>t \<in> set (ts # post). Has (AddChain (badTipSets sf) (ts # post)) (String t))
       \<and> AddChain (badTipSets sf) (ts # post) = badTipSets s \<union> set (map String (ts # post))
       \<and> (\<forall>k. HasTipSetAndState (chainStore sw) k \<longrightarrow> HasTipSetAndState (chainStore sf) k)
       \<and> (\<exists>new. calls sw = calls s @ new
             \<and> (\<forall>t \<in> set (newly_put new). HasTipSetAndState (chainStore sf) (String t)))"
proof -
  let ?p = "last (parent # pre)" and ?i = "i + length pre"
  have w: "(if ?i = 0 then
              (case widen sm ts of
                 Inl err \<Rightarrow> (Some err, sm)
               | Inr None \<Rightarrow> (None, sm)
               | Inr (Some wts) \<Rightarrow> syncOne env sm ?p wts)
            else (None, sm)) = (None, sw)"
    using first later by (cases "?i = 0") auto
  have "syncChain env s parent i (pre @ ts # post) = syncChain env sm ?p ?i (ts # post)"
    using prefix by (rule syncChain_append)
  also have "\<dots> = (Some err, sf\<lparr>badTipSets := AddChain (badTipSets sf) (ts # post)\<rparr>)"
    unfolding syncChain_Cons using w fail by simp
  finally have run: "syncChain env s parent i (pre @ ts # post)
           = (Some err, sf\<lparr>badTipSets := AddChain (badTipSets sf) (ts # post)\<rparr>)" .
  have e1: "extends s sm" using prefix by (rule syncChain_extends)
  have e2: "extends sm sw"
    using w by (auto simp: extends_refl syncOne_extends split: if_splits sum.splits option.splits)
  have e3: "extends sw sf" using fail by (rule syncOne_extends)
  have bad: "badTipSets sf = badTipSets s"
  proof -
    have "badTipSets sm = badTipSets s"
      using syncChain_bad [OF prefix] by auto
    moreover have "badTipSets sw = badTipSets sm"
      using w by (auto split: if_splits sum.splits option.splits dest: syncOne_frame)
    moreover have "badTipSets sf = badTipSets sw"
      using syncOne_frame [OF fail] by simp
    ultimately show ?thesis by simp
  qed
  have marked: "\<forall>t \<in> set (ts # post). Has (AddChain (badTipSets sf) (ts # post)) (String t)"
    by (auto simp: AddChain_eq Add_def Has_def)
  have mono: "\<forall>k. HasTipSetAndState (chainStore sw) k \<longrightarrow> HasTipSetAndState (chainStore sf) k"
    using e3 unfolding extends_def by blast
  from extends_trans [OF e1 e2] obtain new where
    "calls sw = calls s @ new"
    "\<forall>t \<in> set (newly_put new). HasTipSetAndState (chainStore sw) (String t)"
    unfolding extends_def by blast
  with mono have "\<exists>new. calls sw = calls s @ new
             \<and> (\<forall>t \<in> set (newly_put new). HasTipSetAndState (chainStore sf) (String t))"
    by blast
  with run marked mono bad show ?thesis
    by (simp add: AddChain_eq Add_def del: AddChain.simps)
qed

theorem syncChain_failure_marks_descendants_witness:
  "fst (syncChain demo_env demo_syncer [genesis] 0 [[b2], [b4]]) = Some (ErrExternal 3)
   \<and> Has (badTipSets (snd (syncChain demo_env demo_syncer [genesis] 0 [[b2], [b4]]))) [4]
   \<and> HasTipSetAndState (chainStore (snd (syncChain demo_env demo_syncer [genesis] 0 [[b2], [b4]]))) [2]"
proof -
  obtain sm where p: "syncChain demo_env demo_syncer [genesis] 0 [[b2]] = (None, sm)"
    and f: "syncOne demo_env sm [b2] [b4] = (Some (ErrExternal 3), sm)"
    using demo_prefix_b2 by blast
  have f': "syncOne demo_env sm (last ([genesis] # [[b2]])) [b4] = (Some (ErrExternal 3), sm)"
    using f by simp
  have has: "HasTipSetAndState (chainStore sm) [2]"
    using p by (simp add: demo_syncOne_b2) (auto simp: model_defs demo_defs)
  from syncChain_failure_marks_descendants [OF p _ _ f', where post = "[]"]
  have "syncChain demo_env demo_syncer [genesis] 0 ([[b2]] @ [[b4]])
           = (Some (ErrExternal 3), sm\<lparr>badTipSets := AddChain (badTipSets sm) [[b4]]\<rparr>)"
    by simp
  then show ?thesis using has
    by (simp add: Has_def Add_def String_def ToSortedCidSet_def b4_def)
qed

subsection \<open>C6: a tipset that fails NewValidTipSet\<close>

text \<open>
  Claim C6. Let the walk of \<open>collectChain\<close> from the key \<open>K\<close> reach the cursor \<open>c\<close> with
  the tipsets \<open>chain\<close> collected, let the loop go on there (the loop condition holds and
  \<open>c\<close> is neither in the store nor in the cache), and let \<^verbatim>\<open>NewValidTipSet\<close> fail with
  \<open>err\<close> on the blocks fetched for \<open>c\<close>. Then \<open>collectChain\<close> returns \<open>err\<close>; the cache
  afterwards holds \<open>c\<close> and the key of every collected tipset, and is exactly the old
  cache with these keys added; the chain store is unchanged.
\<close>

theorem collectChain_invalid_tipset:
  assumes walk: "reaches env s K [] c chain"
      and cond: "SyncMode s = Syncing \<or> length chain < FinalityLimit"
      and unknown: "\<not> HasTipSetAndState (chainStore s) c"
      and notbad: "\<not> Has (badTipSets s) c"
      and fetched: "getBlksMaybeFromNet env c = Inr blks"
      and invalid: "NewValidTipSet env blks = Inl err"
  shows "\<exists>s'. collectChain env s K = Some (Inl err, s')
       \<and> Has (badTipSets s') c
       \<and> (\<forall>ts \<in> set chain. Has (badTipSets s') (String ts))
       \<and> badTipSets s' = badTipSets s \<union> {c} \<union> set (map String chain)
       \<and> chainStore s' = chainStore s \<and> SyncMode s' = SyncMode s \<and> calls s' = calls s"
proof -
  have "collectChain_loop env s c chain =
      Some (Inl err, s\<lparr>badTipSets := AddChain (Add (badTipSets s) c) chain\<rparr>)"
    using cond unknown notbad fetched invalid by (subst collectChain_loop.simps) simp
  with reaches_same_result [OF walk]
  have "collectChain env s K = Some (Inl err, s\<lparr>badTipSets := AddChain (Add (badTipSets s) c) chain\<rparr>)"
    by (simp add: collectChain_def)
  then show ?thesis
    by (auto simp: AddChain_eq Add_def Has_def)
qed

theorem collectChain_invalid_tipset_witness:
  "fst (the (collectChain demo_env demo_syncer [6])) = Inl (ErrExternal 2)
   \<and> badTipSets (snd (the (collectChain demo_env demo_syncer [6]))) = {[5], [6]}
   \<and> chainStore (snd (the (collectChain demo_env demo_syncer [6]))) = chainStore demo_syncer"
proof -
  have "\<exists>s'. collectChain demo_env demo_syncer [6] = Some (Inl (ErrExternal 2), s')
       \<and> Has (badTipSets s') [5]
       \<and> (\<forall>ts \<in> set [[b6]]. Has (badTipSets s') (String ts))
       \<and> badTipSets s' = badTipSets demo_syncer \<union> {[5]} \<union> set (map String [[b6]])
       \<and> chainStore s' = chainStore demo_syncer \<and> SyncMode s' = SyncMode demo_syncer
       \<and> calls s' = calls demo_syncer"
    by (rule collectChain_invalid_tipset [OF demo_reaches_5, where blks = "[b5]"])
       (simp_all add: model_defs demo_defs)
  then obtain s' where c: "collectChain demo_env demo_syncer [6] = Some (Inl (ErrExternal 2), s')"
    and b: "badTipSets s' = badTipSets demo_syncer \<union> {[5]} \<union> set (map String [[b6]])"
    and st: "chainStore s' = chainStore demo_syncer"
    by blast
  have "badTipSets s' = {[5], [6]}"
    unfolding b by (auto simp: String_def ToSortedCidSet_def b6_def demo_syncer_def)
  with c st show ?thesis by simp
qed

subsection \<open>C7: calling HandleNewTipset twice\<close>

text \<open>
  Claim C7, as the code has it. For every key \<open>K\<close>: when the store already contains all
  blocks referenced by \<open>K\<close>, the call \<open>HandleNewTipset(K)\<close> returns success at once and
  changes nothing. And let \<open>K\<close> be a key for which the fetcher and \<^verbatim>\<open>NewValidTipSet\<close>
  return a tipset with the key \<open>K\<close>. If the first call \<open>HandleNewTipset(K)\<close> returns
  success, or leaves \<open>K\<close> in the bad-tipset cache, or completes no write to the store, then
  a second call in succession returns and leaves the syncer (the store, the head pointer,
  the bad-tipset cache) exactly as the first call left it. The case left out is a first
  call that fails in \<open>syncOne\<close> on the widened tipset after that tipset was put into the
  store.
\<close>

theorem HandleNewTipset_idempotent:
  "(HasAllBlocks (chainStore s) K \<longrightarrow> HandleNewTipset env s K = Some (None, s))
   \<and> (HandleNewTipset env s K = Some (r1, s1) \<longrightarrow>
      (\<forall>blks ts. getBlksMaybeFromNet env K = Inr blks \<longrightarrow>
                  NewValidTipSet env blks = Inr ts \<longrightarrow> String ts = K) \<longrightarrow>
      (r1 = None \<or> Has (badTipSets s1) K
         \<or> (chainStore s1 = chainStore s \<and> calls s1 = calls s)) \<longrightarrow>
      (\<exists>r2. HandleNewTipset env s1 K = Some (r2, s1)))"
proof (intro conjI impI)
  assume "HasAllBlocks (chainStore s) K"
  then show "HandleNewTipset env s K = Some (None, s)" by (simp add: HandleNewTipset_def)
next
  assume first: "HandleNewTipset env s K = Some (r1, s1)"
     and key: "\<forall>blks ts. getBlksMaybeFromNet env K = Inr blks \<longrightarrow>
                  NewValidTipSet env blks = Inr ts \<longrightarrow> String ts = K"
     and settled: "r1 = None \<or> Has (badTipSets s1) K
                    \<or> (chainStore s1 = chainStore s \<and> calls s1 = calls s)"
  show "\<exists>r2. HandleNewTipset env s1 K = Some (r2, s1)"
  proof (cases "HasAllBlocks (chainStore s) K")
    case True
    then show ?thesis using first by (auto simp: HandleNewTipset_def)
  next
    case nb: False
    show ?thesis
    proof (cases "Has (badTipSets s1) K")
      case True
      then show ?thesis using HandleNewTipset_bad_key by blast
    next
      case notbad: False
      from first nb obtain res sc where c: "collectChain_loop env s K [] = Some (res, sc)"
        by (auto simp: HandleNewTipset_def collectChain_def split: option.splits)
      from collectChain_loop_frame [OF c]
      have fr: "chainStore sc = chainStore s" "calls sc = calls s" by simp_all
      show ?thesis
      proof (cases res)
        case (Inl e)
        then have s1: "s1 = sc" using first nb c by (simp add: HandleNewTipset_def collectChain_def)
        from collectChain_loop_fails_again [OF c] Inl obtain e' where
          "collectChain_loop env sc K [] = Some (Inl e', sc)" by auto
        then have "HandleNewTipset env sc K = Some (Some e', sc)"
          using nb fr by (simp add: HandleNewTipset_def collectChain_def)
        then show ?thesis using s1 by blast
      next
        case (Inr chain)
        have sc: "sc = s" using collectChain_loop_ok_state [OF c, of chain] Inr by simp
        show ?thesis
        proof (cases "s1 = s")
          case True
          then show ?thesis using first by blast
        next
          case changed: False
          then obtain parentTs where
            run: "syncChain env s parentTs 0 chain = (r1, s1)" and ne: "chain \<noteq> []"
            using first nb c Inr sc
            by (auto simp: HandleNewTipset_def collectChain_def split: list.splits sum.splits)
          have last: "String (last chain) = K"
            using collectChain_loop_last [OF c, of chain] Inr ne key by auto
          have unknown: "\<not> HasTipSetAndState (chainStore s) K"
            using collectChain_loop_known [of s K env] c Inr ne by auto
          show ?thesis
          proof (cases r1)
            case None
            from syncChain_success_covered [OF run [unfolded None]] ne last unknown changed
            have "set K \<subseteq> blocks (chainStore s1)" by auto
            then have "HasAllBlocks (chainStore s1) K"
              by (simp add: HasAllBlocks_def)
            then show ?thesis by (simp add: HandleNewTipset_def)
          next
            case (Some e)
            from syncChain_failure_cases [OF run [unfolded Some]] last notbad changed
            have "length (calls s) < length (calls s1)" by (auto simp: Has_def)
            with settled Some notbad show ?thesis by auto
          qed
        qed
      qed
    qed
  qed
qed

text \<open>
  The claim as stated fails in the case left out. The store holds the genesis tipset and the
  tipset of \<open>b1\<close>, which is the head; the key is that of \<open>b3\<close>, whose parent \<open>b2\<close> is
  unknown. The first call widens the tipset of \<open>b2\<close> to \<open>{b1, b2}\<close>, puts it, and returns
  the error of \<^verbatim>\<open>IsHeavier\<close>: the key is not in the bad-tipset cache, the head is still
  \<open>b1\<close> and \<open>b3\<close> is not in the store. The second call finds nothing to widen, syncs \<open>b2\<close>
  and \<open>b3\<close>, and moves the head to \<open>b3\<close>.
\<close>

theorem HandleNewTipset_idempotent_counterexample:
  "HandleNewTipset demo_env_weigh_fails demo_syncer_b1 [3]
     = Some (Some (ErrExternal 4), demo_after_failed_widen)
   \<and> getBlksMaybeFromNet demo_env_weigh_fails [3] = Inr [b3]
   \<and> NewValidTipSet demo_env_weigh_fails [b3] = Inr [b3]
   \<and> String [b3] = [3]
   \<and> \<not> Has (badTipSets demo_after_failed_widen) [3]
   \<and> HasTipSetAndState (chainStore demo_after_failed_widen) [1, 2]
   \<and> \<not> HasTipSetAndState (chainStore demo_syncer_b1) [1, 2]
   \<and> GetHead (chainStore demo_after_failed_widen) = [1]
   \<and> \<not> HasTipSetAndState (chainStore demo_after_failed_widen) [3]
   \<and> fst (the (HandleNewTipset demo_env_weigh_fails demo_after_failed_widen [3])) = None
   \<and> GetHead (chainStore (snd (the
         (HandleNewTipset demo_env_weigh_fails demo_after_failed_widen [3])))) = [3]
   \<and> HasTipSetAndState (chainStore (snd (the
         (HandleNewTipset demo_env_weigh_fails demo_after_failed_widen [3])))) [3]"
proof -
  obtain s2 where
    "HandleNewTipset demo_env_weigh_fails demo_after_failed_widen [3] = Some (None, s2)"
    "GetHead (chainStore s2) = [3]" "HasTipSetAndState (chainStore s2) [3]"
    using demo_second_call by blast
  moreover have "GetHead (chainStore demo_after_failed_widen) = [1]"
    "\<not> HasTipSetAndState (chainStore demo_after_failed_widen) [3]"
    "\<not> Has (badTipSets demo_after_failed_widen) [3]"
    "HasTipSetAndState (chainStore demo_after_failed_widen) [1, 2]"
    "\<not> HasTipSetAndState (chainStore demo_syncer_b1) [1, 2]"
    by (simp_all add: demo_after_failed_widen_def demo_syncer_b1_def GetHead_def
          HasTipSetAndState_def Has_def)
  moreover have
    "getBlksMaybeFromNet demo_env_weigh_fails [3] = Inr [b3]"
    "NewValidTipSet demo_env_weigh_fails [b3] = Inr [b3]" "String [b3] = [3]"
    by (simp_all add: demo_env_weigh_fails_def model_defs demo_defs)
  ultimately show ?thesis using demo_first_call by simp
qed

theorem HandleNewTipset_idempotent_witness:
  "HasAllBlocks (chainStore demo_syncer) [0]
   \<and> HandleNewTipset demo_env demo_syncer [0] = Some (None, demo_syncer)
   \<and> fst (the (HandleNewTipset demo_env demo_syncer [3])) = None
   \<and> snd (the (HandleNewTipset demo_env
                 (snd (the (HandleNewTipset demo_env demo_syncer [3]))) [3]))
       = snd (the (HandleNewTipset demo_env demo_syncer [3]))
   \<and> fst (the (HandleNewTipset demo_env demo_syncer [4])) = Some (ErrExternal 3)
   \<and> snd (the (HandleNewTipset demo_env
                 (snd (the (HandleNewTipset demo_env demo_syncer [4]))) [4]))
       = snd (the (HandleNewTipset demo_env demo_syncer [4]))"
proof -
  have all0: "HasAllBlocks (chainStore demo_syncer) [0]"
    by (simp add: HasAllBlocks_def demo_syncer_def)
  obtain s3 where run3: "HandleNewTipset demo_env demo_syncer [3] = Some (None, s3)"
    using demo_run_3 by blast
  obtain s4 where run4: "HandleNewTipset demo_env demo_syncer [4] = Some (Some (ErrExternal 3), s4)"
    and bad4: "Has (badTipSets s4) [4]"
    using demo_run_4 by blast
  have key3: "\<forall>blks ts. getBlksMaybeFromNet demo_env [3] = Inr blks \<longrightarrow>
                  NewValidTipSet demo_env blks = Inr ts \<longrightarrow> String ts = [3]"
    by (auto simp: model_defs demo_defs)
  have key4: "\<forall>blks ts. getBlksMaybeFromNet demo_env [4] = Inr blks \<longrightarrow>
                  NewValidTipSet demo_env blks = Inr ts \<longrightarrow> String ts = [4]"
    by (auto simp: model_defs demo_defs)
  from HandleNewTipset_idempotent [where s = demo_syncer and K = "[0]" and env = demo_env,
      THEN conjunct1] all0
  have "HandleNewTipset demo_env demo_syncer [0] = Some (None, demo_syncer)" by blast
  moreover from HandleNewTipset_idempotent [where s = demo_syncer and K = "[3]"
      and env = demo_env and ?r1.0 = None and ?s1.0 = s3, THEN conjunct2] run3 key3
  obtain r2 where "HandleNewTipset demo_env s3 [3] = Some (r2, s3)" by blast
  moreover from HandleNewTipset_idempotent [where s = demo_syncer and K = "[4]"
      and env = demo_env and ?r1.0 = "Some (ErrExternal 3)" and ?s1.0 = s4, THEN conjunct2]
      run4 key4 bad4
  obtain r2' where "HandleNewTipset demo_env s4 [4] = Some (r2', s4)" by blast
  ultimately show ?thesis using all0 run3 run4 by simp
qed

subsection \<open>C8: the head-parent state when the head is the genesis tipset\<close>

text \<open>
  Claim C8, as the code has it. Consider a call \<open>syncOne(parent, next)\<close> that comes to
  the comparison of weights: \<open>next\<close> is not the head, passes every step up to
  \<^verbatim>\<open>PutTipSetAndState\<close>, and the state \<open>nextParentSt\<close> of the parent and the tipset
  \<open>headTipSet\<close> of the head are looked up. If the head tipset has an empty parent set,
  then the head-parent state argument passed to \<^verbatim>\<open>IsHeavier\<close> is the nil \<^verbatim>\<open>state.Tree\<close>
  (\<open>None\<close>), the zero value of the declared variable, and not a state tree, empty or
  otherwise: the call is \<^verbatim>\<open>IsHeavier(next, headTipSet, nextParentSt, nil)\<close>, and what
  \<open>syncOne\<close> returns and leaves behind does not depend on the answers of \<^verbatim>\<open>IsHeavier\<close>
  for any other head-parent state. It returns the error that \<^verbatim>\<open>IsHeavier\<close> reports on
  these arguments, it returns success with the head unchanged when the answer on them is
  false, and it moves the head to \<open>next\<close> only if the answer on them is true.
\<close>

theorem syncOne_genesis_head_parent_state:
  assumes other: "GetHead (chainStore s) \<noteq> ToSortedCidSet next"
      and parentSt: "tipSetState env s (ToSortedCidSet parent) = Inr st"
      and height: "Height next = Inr h"
      and ancestors: "GetRecentAncestors env (chainStore s) parent h = Inr ancestors"
      and transition: "RunStateTransition env next ancestors st = Inr st'"
      and flush: "Flush env st' = Inr root"
      and put: "PutTipSetAndState (chainStore s) \<lparr>TipSet = next, TipSetStateRoot = root\<rparr>
                  = Inr store1"
      and nextParentSt: "tipSetState env (s\<lparr>chainStore := store1\<rparr>) (ToSortedCidSet parent)
                  = Inr nextParentSt"
      and headTipSet: "GetTipSet store1 (GetHead (chainStore s)) = Inr headTipSet"
      and genesis_head: "Parents headTipSet = Inr []"
  shows "syncOne env s parent next
           = syncOne (env\<lparr>IsHeavier := (\<lambda>a b ast bst. IsHeavier env a b ast None)\<rparr>) s parent next
       \<and> (\<exists>later. calls (snd (syncOne env s parent next))
             = calls s @ [CallPutTipSetAndState \<lparr>TipSet = next, TipSetStateRoot = root\<rparr>,
                          CallIsHeavier next headTipSet nextParentSt None] @ later)
       \<and> (\<forall>err. IsHeavier env next headTipSet nextParentSt None = Inl err
              \<longrightarrow> fst (syncOne env s parent next) = Some err)
       \<and> (IsHeavier env next headTipSet nextParentSt None = Inr False
              \<longrightarrow> fst (syncOne env s parent next) = None
                \<and> GetHead (chainStore (snd (syncOne env s parent next))) = GetHead (chainStore s))
       \<and> (GetHead (chainStore (snd (syncOne env s parent next))) = ToSortedCidSet next
              \<longrightarrow> IsHeavier env next headTipSet nextParentSt None = Inr True)"
proof -
  have nil: "case None of
                  None \<Rightarrow> ([] :: SortedCidSet) = []
                | Some t \<Rightarrow> [] \<noteq> ([] :: SortedCidSet)
                    \<and> tipSetState env (s\<lparr>chainStore := store1\<rparr>) [] = Inr t"
    by simp
  note eq = syncOne_weighing [OF other parentSt height ancestors transition flush put
      nextParentSt headTipSet genesis_head nil]
  have eq': "syncOne (env\<lparr>IsHeavier := (\<lambda>a b ast bst. IsHeavier env a b ast None)\<rparr>) s parent next
      = syncOne env s parent next"
    unfolding eq
    by (subst syncOne_weighing [where st = st and h = h and ancestors = ancestors and st' = st'
          and root = root and ?store1.0 = store1 and nextParentSt = nextParentSt
          and headTipSet = headTipSet and headParentCids = "[]" and headParentSt = None])
       (use assms in \<open>simp_all add: tipSetState_IsHeavier_update split: sum.splits\<close>)
  show ?thesis
    unfolding eq' unfolding eq
    using put_lookups [OF put] other
    by (auto simp: head_update_simps split: sum.splits)
qed

text \<open>
  The claim as stated says that a state tree, the empty one, is passed. In the runs below
  the head is the genesis tipset, whose parent set is empty. In the first the call
  recorded is \<^verbatim>\<open>IsHeavier\<close> with the nil tree. In the second \<^verbatim>\<open>IsHeavier\<close> answers true
  on every state tree and reports an error on the nil tree: \<open>syncOne\<close> returns that error.
\<close>

theorem syncOne_genesis_head_parent_state_counterexample:
  "Parents [genesis] = Inr []
   \<and> GetTipSet (chainStore demo_syncer) (GetHead (chainStore demo_syncer)) = Inr [genesis]
   \<and> calls (snd (syncOne demo_env demo_syncer [genesis] [b1])) =
       [CallPutTipSetAndState \<lparr>TipSet = [b1], TipSetStateRoot = 1\<rparr>,
        CallIsHeavier [b1] [genesis] 0 None, CallSetHead [b1]]
   \<and> IsHeavier demo_env_needs_tree [b1] [genesis] 0 None = Inl (ErrExternal 6)
   \<and> IsHeavier demo_env_needs_tree [b1] [genesis] 0 (Some 0) = Inr True
   \<and> fst (syncOne demo_env_needs_tree demo_syncer [genesis] [b1]) = Some (ErrExternal 6)"
  by (simp add: demo_syncOne_b1 demo_syncOne_needs_tree)
     (simp add: model_defs demo_defs demo_env_needs_tree_def)

theorem syncOne_genesis_head_parent_state_witness:
  "Parents [genesis] = Inr []
   \<and> IsHeavier demo_env_needs_tree [b1] [genesis] 0 None = Inl (ErrExternal 6)
   \<and> fst (syncOne demo_env_needs_tree demo_syncer [genesis] [b1]) = Some (ErrExternal 6)"
proof -
  have other: "GetHead (chainStore demo_syncer) \<noteq> ToSortedCidSet [b1]"
    and parentSt: "tipSetState demo_env_needs_tree demo_syncer (ToSortedCidSet [genesis]) = Inr 0"
    and height: "Height [b1] = Inr 1"
    and ancestors: "GetRecentAncestors demo_env_needs_tree (chainStore demo_syncer) [genesis] 1
                = Inr []"
    and transition: "RunStateTransition demo_env_needs_tree [b1] [] 0 = Inr 1"
    and flush: "Flush demo_env_needs_tree 1 = Inr 1"
    and put: "PutTipSetAndState (chainStore demo_syncer) \<lparr>TipSet = [b1], TipSetStateRoot = 1\<rparr>
                = Inr (chainStore demo_syncer_b1\<lparr>head := [0]\<rparr>)"
    and nextParentSt: "tipSetState demo_env_needs_tree
                (demo_syncer\<lparr>chainStore := chainStore demo_syncer_b1\<lparr>head := [0]\<rparr>\<rparr>)
                (ToSortedCidSet [genesis]) = Inr 0"
    and headTipSet: "GetTipSet (chainStore demo_syncer_b1\<lparr>head := [0]\<rparr>)
                (GetHead (chainStore demo_syncer)) = Inr [genesis]"
    and genesis_head: "Parents [genesis] = Inr []"
    by (simp_all add: model_defs demo_defs demo_env_needs_tree_def)
  have nil: "IsHeavier demo_env_needs_tree [b1] [genesis] 0 None = Inl (ErrExternal 6)"
    by (simp add: demo_env_needs_tree_def)
  note t = syncOne_genesis_head_parent_state [OF other parentSt height ancestors transition
      flush put nextParentSt headTipSet genesis_head]
  from t nil have "fst (syncOne demo_env_needs_tree demo_syncer [genesis] [b1])
      = Some (ErrExternal 6)"
    by blast
  with nil genesis_head show ?thesis by blast
qed

subsection \<open>C9: the collected chain is not empty\<close>

text \<open>
  Claim C9. Suppose that \<^verbatim>\<open>HasTipSetAndState\<close> for the candidate key implies
  \<^verbatim>\<open>HasAllBlocks\<close> for it. If \<open>HandleNewTipset\<close> passes the \<^verbatim>\<open>HasAllBlocks\<close> check (the
  check is false) and \<open>collectChain\<close> returns a chain, the chain is not empty, so
  \<^verbatim>\<open>chain[0]\<close> is within bounds. The requirement is needed: when the candidate key is in
  the store although not all its blocks are, \<open>collectChain\<close> returns the empty chain at
  once and \<open>HandleNewTipset\<close> panics on \<^verbatim>\<open>chain[0]\<close>. In a consistent store (a property
  that every operation of the syncer preserves, see \<open>extends\<close>) the requirement holds.
\<close>

theorem collectChain_nonempty:
  "((HasTipSetAndState (chainStore s) K \<longrightarrow> HasAllBlocks (chainStore s) K) \<longrightarrow>
      \<not> HasAllBlocks (chainStore s) K \<longrightarrow>
      collectChain env s K = Some (Inr chain, s') \<longrightarrow> chain \<noteq> [])
   \<and> (HasTipSetAndState (chainStore s) K \<and> \<not> HasAllBlocks (chainStore s) K \<longrightarrow>
        collectChain env s K = Some (Inr [], s)
        \<and> HandleNewTipset env s K = Some (Some PanicIndexOutOfRange, s))
   \<and> (store_consistent (chainStore s) \<longrightarrow>
        HasTipSetAndState (chainStore s) K \<longrightarrow> HasAllBlocks (chainStore s) K)"
proof (intro conjI impI)
  assume req: "HasTipSetAndState (chainStore s) K \<longrightarrow> HasAllBlocks (chainStore s) K"
    and nb: "\<not> HasAllBlocks (chainStore s) K"
    and c: "collectChain env s K = Some (Inr chain, s')"
  from collectChain_loop_ok_suffix [OF c [unfolded collectChain_def], of chain]
  obtain pre where "chain = pre @ []" "pre = [] \<longrightarrow> HasTipSetAndState (chainStore s) K"
    by auto
  with req nb show "chain \<noteq> []" by auto
next
  assume a: "HasTipSetAndState (chainStore s) K \<and> \<not> HasAllBlocks (chainStore s) K"
  then show c: "collectChain env s K = Some (Inr [], s)"
    unfolding collectChain_def by (subst collectChain_loop.simps) (simp add: FinalityLimit_def)
  from a c show "HandleNewTipset env s K = Some (Some PanicIndexOutOfRange, s)"
    by (simp add: HandleNewTipset_def)
next
  assume sc: "store_consistent (chainStore s)" and h: "HasTipSetAndState (chainStore s) K"
  from h obtain tsas where "map_of (tipIndex (chainStore s)) K = Some tsas"
    by (auto simp: HasTipSetAndState_def)
  then have "(K, tsas) \<in> set (tipIndex (chainStore s))" by (rule map_of_SomeD)
  with sc have "set K \<subseteq> blocks (chainStore s)"
    by (auto simp: store_consistent_def list_all_iff)
  then show "HasAllBlocks (chainStore s) K" by (simp add: HasAllBlocks_def)
qed


theorem collectChain_nonempty_witness:
  "\<not> HasAllBlocks (chainStore demo_syncer) [3]
   \<and> fst (the (collectChain demo_env demo_syncer [3])) = Inr [[b2], [b3]]
   \<and> store_consistent (chainStore demo_syncer)
   \<and> HandleNewTipset demo_env
        (demo_syncer\<lparr>chainStore := (chainStore demo_syncer)\<lparr>blocks := {}\<rparr>\<rparr>) [0]
      = Some (Some PanicIndexOutOfRange,
              demo_syncer\<lparr>chainStore := (chainStore demo_syncer)\<lparr>blocks := {}\<rparr>\<rparr>)"
proof -
  let ?broken = "demo_syncer\<lparr>chainStore := (chainStore demo_syncer)\<lparr>blocks := {}\<rparr>\<rparr>"
  have col: "collectChain demo_env demo_syncer [3] = Some (Inr [[b2], [b3]], demo_syncer)"
    by (simp add: model_defs demo_defs collectChain_loop.simps)
  have nb: "\<not> HasAllBlocks (chainStore demo_syncer) [3]"
    by (simp add: model_defs demo_defs)
  have req: "HasTipSetAndState (chainStore demo_syncer) [3] \<longrightarrow> HasAllBlocks (chainStore demo_syncer) [3]"
    by (simp add: model_defs demo_defs)
  have sc: "store_consistent (chainStore demo_syncer)"
    by (simp add: store_consistent_def model_defs demo_defs)
  have br: "HasTipSetAndState (chainStore ?broken) [0] \<and> \<not> HasAllBlocks (chainStore ?broken) [0]"
    by (simp add: model_defs demo_defs)
  from collectChain_nonempty [of demo_syncer "[3]" demo_env "[[b2], [b3]]" demo_syncer] req nb col
  have "[[b2], [b3]] \<noteq> []" by blast
  moreover from collectChain_nonempty [of ?broken "[0]" demo_env] br
  have "HandleNewTipset demo_env ?broken [0] = Some (Some PanicIndexOutOfRange, ?broken)"
    by blast
  ultimately show ?thesis using nb col sc by simp
qed

subsection \<open>C10: a failure of syncOne on the widened tipset\<close>

text \<open>
  Claim C10. If \<open>HandleNewTipset\<close> passed the \<^verbatim>\<open>HasAllBlocks\<close> check, collected a chain
  with first tipset \<open>c0\<close>, found the parent, widened \<open>c0\<close> to \<open>wts\<close>, and \<open>syncOne\<close> fails
  on \<open>wts\<close> with \<open>err\<close>, then \<open>HandleNewTipset\<close> returns \<open>err\<close> with the syncer as that
  \<open>syncOne\<close> left it, and the cache is the one from before the call. In the forward loop
  the cache changes only when \<open>syncOne\<close> fails on a tipset \<open>chain[j]\<close> of the chain, and
  then by the keys of \<open>chain[j:]\<close>.
\<close>

theorem widened_failure_marks_nothing:
  "(\<not> HasAllBlocks (chainStore s) K \<longrightarrow>
    collectChain env s K = Some (Inr (c0 # rest), s1) \<longrightarrow>
    Parents c0 = Inr parentCids \<longrightarrow>
    GetTipSet (chainStore s1) parentCids = Inr parentTs \<longrightarrow>
    widen s1 c0 = Inr (Some wts) \<longrightarrow>
    syncOne env s1 parentTs wts = (Some err, s2) \<longrightarrow>
      HandleNewTipset env s K = Some (Some err, s2) \<and> badTipSets s2 = badTipSets s)
   \<and> (syncChain env s parent i chain = (r, s') \<longrightarrow>
        badTipSets s' = badTipSets s
        \<or> (\<exists>j<length chain. \<exists>sj pj sf. syncOne env sj pj (chain ! j) = (r, sf) \<and> r \<noteq> None
              \<and> badTipSets s' = AddChain (badTipSets s) (drop j chain)))"
proof (intro conjI impI)
  assume nb: "\<not> HasAllBlocks (chainStore s) K"
    and c: "collectChain env s K = Some (Inr (c0 # rest), s1)"
    and p: "Parents c0 = Inr parentCids"
    and g: "GetTipSet (chainStore s1) parentCids = Inr parentTs"
    and w: "widen s1 c0 = Inr (Some wts)"
    and o: "syncOne env s1 parentTs wts = (Some err, s2)"
  have "syncChain env s1 parentTs 0 (c0 # rest) = (Some err, s2)"
    unfolding syncChain_Cons using w o by simp
  then show "HandleNewTipset env s K = Some (Some err, s2)"
    using nb c p g by (simp add: HandleNewTipset_def)
  have "s1 = s"
    using collectChain_loop_ok_state [OF c [unfolded collectChain_def]] by simp
  then show "badTipSets s2 = badTipSets s"
    using syncOne_frame [OF o] by simp
next
  assume "syncChain env s parent i chain = (r, s')"
  then show "badTipSets s' = badTipSets s
        \<or> (\<exists>j<length chain. \<exists>sj pj sf. syncOne env sj pj (chain ! j) = (r, sf) \<and> r \<noteq> None
              \<and> badTipSets s' = AddChain (badTipSets s) (drop j chain))"
    by (rule syncChain_bad)
qed

theorem widened_failure_marks_nothing_witness:
  "HandleNewTipset demo_env demo_syncer_b3 [4] = Some (Some (ErrExternal 3), demo_syncer_b3)
   \<and> badTipSets demo_syncer_b3 = {}
   \<and> widen demo_syncer_b3 [b4] = Inr (Some [b3, b4])
   \<and> badTipSets (snd (syncChain demo_env demo_syncer [genesis] 0 [[b2], [b4]])) = {[4]}"
proof -
  have nb: "\<not> HasAllBlocks (chainStore demo_syncer_b3) [4]"
    by (simp add: model_defs demo_defs)
  have p: "Parents [b4] = Inr [2]" by (simp add: Parents_def b4_def)
  have g: "GetTipSet (chainStore demo_syncer_b3) [2] = Inr [b2]"
    by (simp add: model_defs demo_defs)
  obtain r s' where run: "syncChain demo_env demo_syncer [genesis] 0 [[b2], [b4]] = (r, s')"
    by fastforce
  have b: "badTipSets s' = {[4]}"
    using run by (simp add: demo_syncOne_b2) (auto simp: model_defs demo_defs)
  from widened_failure_marks_nothing
         [where s = demo_syncer_b3 and K = "[4]" and env = demo_env and ?c0.0 = "[b4]"
            and rest = "[]" and ?s1.0 = demo_syncer_b3 and parentCids = "[2]"
            and parentTs = "[b2]" and wts = "[b3, b4]" and err = "ErrExternal 3"
            and ?s2.0 = demo_syncer_b3]
       nb demo_collect_4 p g demo_widen_b4 demo_syncOne_widened
  have "HandleNewTipset demo_env demo_syncer_b3 [4] = Some (Some (ErrExternal 3), demo_syncer_b3)"
    by blast
  moreover from widened_failure_marks_nothing
         [where env = demo_env and s = demo_syncer and parent = "[genesis]" and i = 0
            and chain = "[[b2], [b4]]" and r = r and s' = s'] run b
  have "badTipSets s' = {[4]}" by simp
  ultimately show ?thesis using run demo_widen_b4
    by (simp add: demo_syncer_b3_def)
qed

end
